theory Spec2Isabelle
  imports Complex_Main "HOL-Library.Multiset" "HOL-Library.Char_ord" "HOL-Library.List_Lexorder"
begin

section \<open>Data model of plan\_waves.py\<close>

text \<open>
  The script keeps two pandas tables (\<open>apps\<close>, \<open>deps\<close>) and a dictionary \<open>waves\<close> with the
  two keys \<open>'nonprod'\<close> and \<open>'prod'\<close> (inserted in that order by \<open>build_waves_for_algo\<close>), each
  holding a list of waves; a wave is a list of application instance ids.
  Exceptions of the Python code are values of \<open>error\<close>; a computation that may raise
  returns \<open>error + 'a\<close>.
\<close>

datatype error = KeyError | IndexError | ValueError | ZeroDivisionError

type_synonym 'a result = "error + 'a"

datatype env = Nonprod | Prod

record app_row =
  app_instance_id :: string
  base_app_id :: string
  BCP_score :: rat

record dep_row =
  source :: string
  target :: string
  source_type :: string
  weight :: rat

type_synonym waves = "env \<Rightarrow> string list list"

type_synonym idxmap = "string \<rightharpoonup> env \<times> nat"

definition MIN_WAVE :: nat where "MIN_WAVE = 15"
definition MAX_WAVE :: nat where "MAX_WAVE = 25"
definition TARGET_WAVES_PER_ENV :: nat where "TARGET_WAVES_PER_ENV = 8"

text \<open>The two environments in the order of \<open>for env in ['nonprod','prod']\<close>.\<close>

definition envs :: "env list" where
  "envs = [Nonprod, Prod]"

fun env_name :: "env \<Rightarrow> string" where
  "env_name Nonprod = ''nonprod''"
| "env_name Prod = ''prod''"

text \<open>\<open>s.endswith(suf)\<close>.\<close>

definition endswith :: "string \<Rightarrow> string \<Rightarrow> bool" where
  "endswith s suf \<longleftrightarrow> length suf \<le> length s \<and> drop (length s - length suf) s = suf"

text \<open>The f-string \<open>f'-{env}'\<close>.\<close>

definition env_suffix :: "env \<Rightarrow> string" where
  "env_suffix e = ''-'' @ env_name e"

subsection \<open>Running a loop body that may raise\<close>

fun for_each :: "('a \<Rightarrow> 's \<Rightarrow> 's result) \<Rightarrow> 'a list \<Rightarrow> 's \<Rightarrow> 's result" where
  "for_each f [] s = Inr s"
| "for_each f (x # xs) s = (case f x s of Inl e \<Rightarrow> Inl e | Inr s' \<Rightarrow> for_each f xs s')"

fun map_result :: "('a \<Rightarrow> 'b result) \<Rightarrow> 'a list \<Rightarrow> 'b list result" where
  "map_result f [] = Inr []"
| "map_result f (x # xs) =
     (case f x of Inl e \<Rightarrow> Inl e
      | Inr y \<Rightarrow> (case map_result f xs of Inl e \<Rightarrow> Inl e | Inr ys \<Rightarrow> Inr (y # ys)))"

subsection \<open>Looking up the BCP score: \<open>apps_df.loc[x]['BCP_score']\<close>\<close>

text \<open>
  \<open>apps_df\<close> is the application table indexed by \<open>app_instance_id\<close>. For a label that occurs
  in no row \<open>.loc\<close> raises KeyError; for a label of exactly one row the result is the number
  in that row; for a label of several rows it is a pandas Series, and using a comparison
  with a Series as a truth value (or comparing two sort keys) raises ValueError.
\<close>

datatype cell = Scalar rat | Series "rat list"

definition loc_BCP_score :: "app_row list \<Rightarrow> string \<Rightarrow> cell result" where
  "loc_BCP_score apps x =
     (case filter (\<lambda>r. app_instance_id r = x) apps of
        [] \<Rightarrow> Inl KeyError
      | [r] \<Rightarrow> Inr (Scalar (BCP_score r))
      | rs \<Rightarrow> Inr (Series (map BCP_score rs)))"

text \<open>The truth value of \<open>bcp >= k\<close>.\<close>

fun cell_ge :: "cell \<Rightarrow> rat \<Rightarrow> bool result" where
  "cell_ge (Scalar v) k = Inr (k \<le> v)"
| "cell_ge (Series vs) k = Inl ValueError"

fun is_Series :: "cell \<Rightarrow> bool" where
  "is_Series (Scalar v) = False"
| "is_Series (Series vs) = True"

text \<open>The score as a number, where the lookup gives one (the key used by the sort).\<close>

definition BCP_of :: "app_row list \<Rightarrow> string \<Rightarrow> rat" where
  "BCP_of apps x = (case loc_BCP_score apps x of Inr (Scalar v) \<Rightarrow> v | _ \<Rightarrow> 0)"

section \<open>The Equalizer: \<open>equalize_waves\<close>\<close>

text \<open>
  \<open>[a for a in apps['app_instance_id'].tolist() if a.endswith(f'-{env}')]\<close>
\<close>

definition all_env_apps :: "app_row list \<Rightarrow> env \<Rightarrow> string list" where
  "all_env_apps apps e = filter (\<lambda>a. endswith a (env_suffix e)) (map app_instance_id apps)"

text \<open>
  \<open>sorted(xs, key=lambda x: apps_df.loc[x]['BCP_score'], reverse=True)\<close>: the keys are
  computed first (a missing label raises), then the list is sorted by key, descending and
  stable. Sorting two or more elements compares keys, which raises for a Series key.
\<close>

definition sorted_by_BCP_desc :: "app_row list \<Rightarrow> string list \<Rightarrow> string list result" where
  "sorted_by_BCP_desc apps xs =
     (case map_result (loc_BCP_score apps) xs of
        Inl e \<Rightarrow> Inl e
      | Inr keys \<Rightarrow>
          if 2 \<le> length xs \<and> (\<exists>k \<in> set keys. is_Series k) then Inl ValueError
          else Inr (sort_key (\<lambda>x. - BCP_of apps x) xs))"

text \<open>\<open>[base + 1 if i < rem else base for i in range(target_waves)]\<close>\<close>

definition wave_sizes :: "nat \<Rightarrow> nat \<Rightarrow> nat list" where
  "wave_sizes total_apps target_waves =
     (let base = total_apps div target_waves; rem = total_apps mod target_waves
      in map (\<lambda>i. if i < rem then base + 1 else base) [0..<target_waves])"

text \<open>
  The slicing loop
  \<^verbatim>\<open>for s in sizes: new_w.append(all_env_apps[idx: idx + s]); idx += s\<close>
\<close>

fun slice_loop :: "'a list \<Rightarrow> nat \<Rightarrow> nat list \<Rightarrow> 'a list list" where
  "slice_loop xs idx [] = []"
| "slice_loop xs idx (s # sizes) = take s (drop idx xs) # slice_loop xs (idx + s) sizes"

text \<open>The body of the loop over the environments: the new value of \<open>waves[env]\<close>.\<close>

definition equalize_env :: "app_row list \<Rightarrow> nat \<Rightarrow> env \<Rightarrow> string list list result" where
  "equalize_env apps target_waves e =
     (case sorted_by_BCP_desc apps (all_env_apps apps e) of
        Inl err \<Rightarrow> Inl err
      | Inr sorted_apps \<Rightarrow>
          let total_apps = length sorted_apps in
          if total_apps = 0 then Inr (replicate target_waves [])
          else if target_waves = 0 then Inl ZeroDivisionError
          else Inr (slice_loop sorted_apps 0 (wave_sizes total_apps target_waves)))"

definition equalize_waves :: "app_row list \<Rightarrow> nat \<Rightarrow> waves \<Rightarrow> waves result" where
  "equalize_waves apps target_waves w =
     for_each (\<lambda>e w. case equalize_env apps target_waves e of
                       Inl err \<Rightarrow> Inl err
                     | Inr new_w \<Rightarrow> Inr (w(e := new_w)))
       envs w"

text \<open>
  The sizes as the specification words them: \<open>total mod N\<close> waves of size
  \<open>ceil(total/N)\<close>, the rest of size \<open>floor(total/N)\<close>.
\<close>

definition largest_remainder_sizes :: "nat \<Rightarrow> nat \<Rightarrow> nat list" where
  "largest_remainder_sizes t n =
     replicate (t mod n) ((t + n - 1) div n) @ replicate (n - t mod n) (t div n)"

section \<open>The wave-index map and the application groups\<close>

text \<open>
  \<open>wave_index_map\<close>: the dictionary is filled environment by environment, wave by wave;
  a later occurrence of an id overwrites an earlier one.
\<close>

definition wave_index_map :: "waves \<Rightarrow> idxmap" where
  "wave_index_map w =
     fold (\<lambda>e m. fold (\<lambda>(i, wv) m. fold (\<lambda>app m. m(app \<mapsto> (e, i))) wv m)
                     (enumerate 0 (w e)) m)
          envs Map.empty"

text \<open>\<open>idxmap.get(n, (None, 999))[1]\<close>\<close>

definition idx_or_999 :: "idxmap \<Rightarrow> string \<Rightarrow> nat" where
  "idx_or_999 m n = (case m n of None \<Rightarrow> 999 | Some (e, i) \<Rightarrow> i)"

text \<open>
  \<open>apps.groupby('base_app_id')['app_instance_id'].apply(list).to_dict()\<close>: one entry per
  base application, in ascending order of the base id (pandas sorts the group keys), with
  the instance ids of the group in table order.
\<close>

definition base_groups :: "app_row list \<Rightarrow> (string \<times> string list) list" where
  "base_groups apps =
     map (\<lambda>b. (b, map app_instance_id (filter (\<lambda>r. base_app_id r = b) apps)))
         (sort (remdups (map base_app_id apps)))"

text \<open>\<open>deps[deps['source_type']=='application']\<close>\<close>

definition app_deps :: "dep_row list \<Rightarrow> dep_row list" where
  "app_deps deps = filter (\<lambda>r. source_type r = ''application'') deps"

section \<open>The Validator: \<open>validate_waves\<close>\<close>

text \<open>
  One constructor per issue type, carrying the fields of the dictionary that the code
  appends (the constant \<open>expected\<close> and \<open>preferred_range\<close> fields are left out of
  \<open>Wave_size_out_of_bounds\<close>; \<open>Wave_count_mismatch\<close> carries expected and actual).
  A stats row is (algorithm, env, wave\_index, num\_apps).
\<close>

datatype issue =
    Wave_count_mismatch string env nat nat
  | Wave_size_out_of_bounds string env nat nat
  | Env_exclusivity_violation string env nat string
  | Nonprod_not_before_prod string string nat nat
  | Nonprod_production_gap_too_small string string int
  | Cross_env_dependency string string string
  | Cross_wave_high_bcp string string string nat nat
  | Critical_not_co_migrate string string string rat nat nat
  | Mission_critical_edge_wave string env nat string

type_synonym stat = "string \<times> env \<times> nat \<times> nat"

text \<open>Lines 78-80: the wave counts.\<close>

definition check_wave_counts :: "waves \<Rightarrow> string \<Rightarrow> issue list" where
  "check_wave_counts w algorithm_name =
     concat (map (\<lambda>e. if length (w e) \<noteq> TARGET_WAVES_PER_ENV
                       then [Wave_count_mismatch algorithm_name e TARGET_WAVES_PER_ENV (length (w e))]
                       else [])
                 envs)"

text \<open>Lines 82-86: the per-wave statistics and the size check.\<close>

definition wave_stats :: "waves \<Rightarrow> string \<Rightarrow> stat list" where
  "wave_stats w algorithm_name =
     concat (map (\<lambda>e. map (\<lambda>(i, wv). (algorithm_name, e, i, length wv)) (enumerate 0 (w e))) envs)"

definition check_wave_sizes :: "waves \<Rightarrow> string \<Rightarrow> issue list" where
  "check_wave_sizes w algorithm_name =
     concat (map (\<lambda>e. concat (map (\<lambda>(i, wv).
                         if length wv < MIN_WAVE \<or> length wv > MAX_WAVE
                         then [Wave_size_out_of_bounds algorithm_name e i (length wv)]
                         else [])
                       (enumerate 0 (w e))))
                 envs)"

text \<open>Lines 88-92: environment exclusivity.\<close>

definition check_exclusivity :: "waves \<Rightarrow> string \<Rightarrow> issue list" where
  "check_exclusivity w algorithm_name =
     concat (map (\<lambda>e. concat (map (\<lambda>(i, wv).
                         concat (map (\<lambda>a. if \<not> endswith a (env_suffix e)
                                           then [Env_exclusivity_violation algorithm_name e i a]
                                           else [])
                                     wv))
                       (enumerate 0 (w e))))
                 envs)"

text \<open>Lines 95-104: the sequencing check of one base application.\<close>

definition check_base_group :: "idxmap \<Rightarrow> string \<Rightarrow> string \<times> string list \<Rightarrow> issue list" where
  "check_base_group m algorithm_name g =
     (let base = fst g; instances = snd g;
          nonprod = filter (\<lambda>i. endswith i ''-nonprod'') instances;
          prod = filter (\<lambda>i. endswith i ''-prod'') instances
      in if nonprod \<noteq> [] \<and> prod \<noteq> [] then
           (let np_idx = min_list (map (idx_or_999 m) nonprod);
                p_idx = min_list (map (idx_or_999 m) prod)
            in (if p_idx \<le> np_idx
                then [Nonprod_not_before_prod algorithm_name base np_idx p_idx] else []) @
               (if int p_idx - int np_idx < 1
                then [Nonprod_production_gap_too_small algorithm_name base (int p_idx - int np_idx)]
                else []))
         else [])"

definition check_sequencing :: "app_row list \<Rightarrow> idxmap \<Rightarrow> string \<Rightarrow> issue list" where
  "check_sequencing apps m algorithm_name =
     concat (map (check_base_group m algorithm_name) (base_groups apps))"

text \<open>
  Lines 107-122: the checks of one dependency row. The row is looked at only when both
  ends are keys of the index map; the BCP lookup of the source may raise.
\<close>

definition check_dep :: "app_row list \<Rightarrow> idxmap \<Rightarrow> string \<Rightarrow> dep_row \<Rightarrow> issue list result" where
  "check_dep apps m algorithm_name r =
     (let src = source r; tgt = target r; wt = weight r
      in case (m src, m tgt) of
           (Some (s_env, s_idx), Some (t_env, t_idx)) \<Rightarrow>
             (case loc_BCP_score apps src of
                Inl err \<Rightarrow> Inl err
              | Inr bcp_src \<Rightarrow>
                  if s_env \<noteq> t_env then Inr [Cross_env_dependency algorithm_name src tgt]
                  else
                    (case cell_ge bcp_src 8 of
                       Inl err \<Rightarrow> Inl err
                     | Inr ge8 \<Rightarrow>
                         (case cell_ge bcp_src 7 of
                            Inl err \<Rightarrow> Inl err
                          | Inr ge7 \<Rightarrow>
                              Inr ((if ge8 \<and> s_idx \<noteq> t_idx
                                    then [Cross_wave_high_bcp algorithm_name src tgt s_idx t_idx]
                                    else []) @
                                   (if ge7 \<and> 7 < wt \<and>
                                       \<not> (t_idx = s_idx \<or> int t_idx = int s_idx - 1)
                                    then [Critical_not_co_migrate algorithm_name src tgt wt s_idx t_idx]
                                    else [])))))
         | _ \<Rightarrow> Inr [])"

definition concat_result :: "('a \<Rightarrow> 'b list result) \<Rightarrow> 'a list \<Rightarrow> 'b list result" where
  "concat_result f xs = (case map_result f xs of Inl err \<Rightarrow> Inl err | Inr ys \<Rightarrow> Inr (concat ys))"

definition check_deps :: "app_row list \<Rightarrow> dep_row list \<Rightarrow> idxmap \<Rightarrow> string \<Rightarrow> issue list result" where
  "check_deps apps deps m algorithm_name =
     concat_result (check_dep apps m algorithm_name) (app_deps deps)"

text \<open>
  Lines 124-129: mission-critical applications in the first or last wave. The left
  operand of \<open>and\<close> is evaluated for every member, so the lookup can raise.
\<close>

definition check_edge_app :: "app_row list \<Rightarrow> string \<Rightarrow> env \<Rightarrow> nat \<Rightarrow> nat \<times> string \<Rightarrow> issue list result" where
  "check_edge_app apps algorithm_name e N ia =
     (let i = fst ia; a = snd ia
      in case loc_BCP_score apps a of
           Inl err \<Rightarrow> Inl err
         | Inr bcp \<Rightarrow>
             (case cell_ge bcp 9 of
                Inl err \<Rightarrow> Inl err
              | Inr ge9 \<Rightarrow>
                  Inr (if ge9 \<and> (i = 0 \<or> int i = int N - 1)
                       then [Mission_critical_edge_wave algorithm_name e i a] else [])))"

text \<open>The pairs (wave index, member) of a wave list, in iteration order.\<close>

definition indexed_members :: "string list list \<Rightarrow> (nat \<times> string) list" where
  "indexed_members ws = concat (map (\<lambda>(i, wv). map (\<lambda>a. (i, a)) wv) (enumerate 0 ws))"

definition check_edge_waves :: "app_row list \<Rightarrow> waves \<Rightarrow> string \<Rightarrow> issue list result" where
  "check_edge_waves apps w algorithm_name =
     concat_result (\<lambda>e. concat_result (check_edge_app apps algorithm_name e (length (w e)))
                           (indexed_members (w e)))
       envs"

text \<open>
  \<open>validate_waves\<close> reads the two module-level tables \<open>apps\<close> and \<open>deps\<close>; they are
  parameters here. The issues are appended section by section, so the result is the
  concatenation in source order; an exception in a later section discards the whole result.
\<close>

definition validate_waves ::
  "app_row list \<Rightarrow> dep_row list \<Rightarrow> waves \<Rightarrow> string \<Rightarrow> (issue list \<times> stat list) result" where
  "validate_waves apps deps w algorithm_name =
     (let idxmap = wave_index_map w
      in case check_deps apps deps idxmap algorithm_name of
           Inl err \<Rightarrow> Inl err
         | Inr dep_issues \<Rightarrow>
             (case check_edge_waves apps w algorithm_name of
                Inl err \<Rightarrow> Inl err
              | Inr edge_issues \<Rightarrow>
                  Inr (check_wave_counts w algorithm_name @
                       check_wave_sizes w algorithm_name @
                       check_exclusivity w algorithm_name @
                       check_sequencing apps idxmap algorithm_name @
                       dep_issues @ edge_issues,
                       wave_stats w algorithm_name)))"

section \<open>The Validator, statement by statement\<close>

text \<open>
  A second embedding of \<open>validate_waves\<close>, one definition per statement, on the variables
  the function can reach: the dictionary \<open>waves\<close> it is passed (the caller's object, not a
  copy) and its locals \<open>idxmap\<close> (the \<open>m\<close> of \<open>wave_index_map\<close>), \<open>issues\<close> and \<open>stats\<close>.
  A statement takes the variables to an optional exception and the variables after it.
\<close>

record frame =
  st_waves :: waves
  st_idxmap :: idxmap
  st_issues :: "issue list"
  st_stats :: "stat list"

type_synonym stmt = "frame \<Rightarrow> error option \<times> frame"

definition pass_stmt :: stmt where
  "pass_stmt s = (None, s)"

definition raise_stmt :: "error \<Rightarrow> stmt" where
  "raise_stmt err s = (Some err, s)"

text \<open>Two statements in sequence; an exception of the first skips the second.\<close>

definition then_stmt :: "stmt \<Rightarrow> stmt \<Rightarrow> stmt" where
  "then_stmt c d s = (case c s of (None, s') \<Rightarrow> d s' | (Some err, s') \<Rightarrow> (Some err, s'))"

text \<open>\<open>for x in xs: body\<close>; an exception of the body leaves the loop.\<close>

fun for_in :: "'a list \<Rightarrow> ('a \<Rightarrow> stmt) \<Rightarrow> stmt" where
  "for_in [] body s = (None, s)"
| "for_in (x # xs) body s =
     (case body x s of (None, s') \<Rightarrow> for_in xs body s' | (Some err, s') \<Rightarrow> (Some err, s'))"

text \<open>\<open>issues.append(x)\<close>, \<open>stats.append(x)\<close>, \<open>m = {}\<close> and \<open>m[app] = v\<close>.\<close>

definition issues_append :: "issue \<Rightarrow> stmt" where
  "issues_append x s = (None, s\<lparr>st_issues := st_issues s @ [x]\<rparr>)"

definition stats_append :: "stat \<Rightarrow> stmt" where
  "stats_append x s = (None, s\<lparr>st_stats := st_stats s @ [x]\<rparr>)"

definition idxmap_clear :: stmt where
  "idxmap_clear s = (None, s\<lparr>st_idxmap := Map.empty\<rparr>)"

definition idxmap_setitem :: "string \<Rightarrow> env \<times> nat \<Rightarrow> stmt" where
  "idxmap_setitem app v s = (None, s\<lparr>st_idxmap := (st_idxmap s)(app \<mapsto> v)\<rparr>)"

text \<open>Line 76, \<open>idxmap = wave_index_map(waves)\<close>, with the body of lines 136-142.\<close>

definition wave_index_map_stmts :: stmt where
  "wave_index_map_stmts =
     then_stmt idxmap_clear
       (for_in envs (\<lambda>e s.
          for_in (enumerate 0 (st_waves s e)) (\<lambda>(i, wv).
            for_in wv (\<lambda>app. idxmap_setitem app (e, i))) s))"

text \<open>Lines 78-80.\<close>

definition wave_count_stmts :: "string \<Rightarrow> stmt" where
  "wave_count_stmts algorithm_name =
     for_in envs (\<lambda>e s.
       if length (st_waves s e) \<noteq> TARGET_WAVES_PER_ENV
       then issues_append (Wave_count_mismatch algorithm_name e TARGET_WAVES_PER_ENV
                             (length (st_waves s e))) s
       else pass_stmt s)"

text \<open>Lines 82-86.\<close>

definition wave_size_stmts :: "string \<Rightarrow> stmt" where
  "wave_size_stmts algorithm_name =
     for_in envs (\<lambda>e s.
       for_in (enumerate 0 (st_waves s e)) (\<lambda>(i, wv).
         then_stmt (stats_append (algorithm_name, e, i, length wv))
           (if length wv < MIN_WAVE \<or> length wv > MAX_WAVE
            then issues_append (Wave_size_out_of_bounds algorithm_name e i (length wv))
            else pass_stmt)) s)"

text \<open>Lines 88-92.\<close>

definition exclusivity_stmts :: "string \<Rightarrow> stmt" where
  "exclusivity_stmts algorithm_name =
     for_in envs (\<lambda>e s.
       for_in (enumerate 0 (st_waves s e)) (\<lambda>(i, wv).
         for_in wv (\<lambda>a.
           if \<not> endswith a (env_suffix e)
           then issues_append (Env_exclusivity_violation algorithm_name e i a)
           else pass_stmt)) s)"

text \<open>Lines 94-104.\<close>

definition sequencing_stmts :: "app_row list \<Rightarrow> string \<Rightarrow> stmt" where
  "sequencing_stmts apps algorithm_name =
     for_in (base_groups apps) (\<lambda>(base, instances) s.
       let nonprod = filter (\<lambda>i. endswith i ''-nonprod'') instances;
           prod = filter (\<lambda>i. endswith i ''-prod'') instances
       in if nonprod \<noteq> [] \<and> prod \<noteq> [] then
            (let np_idx = min_list (map (idx_or_999 (st_idxmap s)) nonprod);
                 p_idx = min_list (map (idx_or_999 (st_idxmap s)) prod)
             in then_stmt
                  (if p_idx \<le> np_idx
                   then issues_append (Nonprod_not_before_prod algorithm_name base np_idx p_idx)
                   else pass_stmt)
                  (if int p_idx - int np_idx < 1
                   then issues_append (Nonprod_production_gap_too_small algorithm_name base
                                         (int p_idx - int np_idx))
                   else pass_stmt) s)
          else pass_stmt s)"

text \<open>Lines 106-122; \<open>continue\<close> after a cross-environment dependency ends the row.\<close>

definition dependency_stmts :: "app_row list \<Rightarrow> dep_row list \<Rightarrow> string \<Rightarrow> stmt" where
  "dependency_stmts apps deps algorithm_name =
     for_in (app_deps deps) (\<lambda>r s.
       let src = source r; tgt = target r; wt = weight r
       in case (st_idxmap s src, st_idxmap s tgt) of
            (Some (s_env, s_idx), Some (t_env, t_idx)) \<Rightarrow>
              (case loc_BCP_score apps src of
                 Inl err \<Rightarrow> raise_stmt err s
               | Inr bcp_src \<Rightarrow>
                   if s_env \<noteq> t_env
                   then issues_append (Cross_env_dependency algorithm_name src tgt) s
                   else
                     then_stmt
                       (case cell_ge bcp_src 8 of
                          Inl err \<Rightarrow> raise_stmt err
                        | Inr ge8 \<Rightarrow>
                            if ge8 \<and> s_idx \<noteq> t_idx
                            then issues_append
                                   (Cross_wave_high_bcp algorithm_name src tgt s_idx t_idx)
                            else pass_stmt)
                       (case cell_ge bcp_src 7 of
                          Inl err \<Rightarrow> raise_stmt err
                        | Inr ge7 \<Rightarrow>
                            if ge7 \<and> 7 < wt \<and> \<not> (t_idx = s_idx \<or> int t_idx = int s_idx - 1)
                            then issues_append
                                   (Critical_not_co_migrate algorithm_name src tgt wt s_idx t_idx)
                            else pass_stmt) s)
          | _ \<Rightarrow> pass_stmt s)"

text \<open>Lines 124-129.\<close>

definition edge_wave_stmts :: "app_row list \<Rightarrow> string \<Rightarrow> stmt" where
  "edge_wave_stmts apps algorithm_name =
     for_in envs (\<lambda>e s.
       let N = length (st_waves s e)
       in for_in (enumerate 0 (st_waves s e)) (\<lambda>(i, wv).
            for_in wv (\<lambda>a.
              case loc_BCP_score apps a of
                Inl err \<Rightarrow> raise_stmt err
              | Inr bcp \<Rightarrow>
                  (case cell_ge bcp 9 of
                     Inl err \<Rightarrow> raise_stmt err
                   | Inr ge9 \<Rightarrow>
                       if ge9 \<and> (i = 0 \<or> int i = int N - 1)
                       then issues_append (Mission_critical_edge_wave algorithm_name e i a)
                       else pass_stmt))) s)"

text \<open>The body of \<open>validate_waves\<close> after \<open>issues = []\<close> and \<open>stats = []\<close>.\<close>

definition validate_waves_stmts :: "app_row list \<Rightarrow> dep_row list \<Rightarrow> string \<Rightarrow> stmt" where
  "validate_waves_stmts apps deps algorithm_name =
     then_stmt wave_index_map_stmts
    (then_stmt (wave_count_stmts algorithm_name)
    (then_stmt (wave_size_stmts algorithm_name)
    (then_stmt (exclusivity_stmts algorithm_name)
    (then_stmt (sequencing_stmts apps algorithm_name)
    (then_stmt (dependency_stmts apps deps algorithm_name)
               (edge_wave_stmts apps algorithm_name))))))"

text \<open>
  A call \<open>validate_waves(waves, algorithm_name)\<close>: the locals are created, the body runs on
  the caller's \<open>waves\<close>, and the call gives back \<open>(issues, stats)\<close> or the exception, next to
  \<open>waves\<close> as the body left it.
\<close>

definition validate_waves_run ::
  "app_row list \<Rightarrow> dep_row list \<Rightarrow> string \<Rightarrow> waves \<Rightarrow> (issue list \<times> stat list) result \<times> waves" where
  "validate_waves_run apps deps algorithm_name w =
     (case validate_waves_stmts apps deps algorithm_name
             \<lparr>st_waves = w, st_idxmap = Map.empty, st_issues = [], st_stats = []\<rparr> of
        (None, s) \<Rightarrow> (Inr (st_issues s, st_stats s), st_waves s)
      | (Some err, s) \<Rightarrow> (Inl err, st_waves s))"

section \<open>The Repair Engine: the loop of \<open>enforce_constraints\<close>\<close>

text \<open>
  The wave assignment is mutated in place; the model passes it on together with the
  \<open>changed\<close> flag. The waves of an assignment are separate list objects (they are built by
  slicing and by list comprehensions), so an update of one wave changes no other.
  \<open>waves[e][i]\<close> raises IndexError outside the list.
\<close>

definition get_wave :: "waves \<Rightarrow> env \<Rightarrow> nat \<Rightarrow> string list result" where
  "get_wave w e i = (if i < length (w e) then Inr (w e ! i) else Inl IndexError)"

definition set_wave :: "waves \<Rightarrow> env \<Rightarrow> nat \<Rightarrow> string list \<Rightarrow> waves" where
  "set_wave w e i xs = w(e := (w e)[i := xs])"

text \<open>The position a Python list of length \<open>n\<close> gives to the index \<open>i\<close> (negative: from the end).\<close>

definition py_index :: "nat \<Rightarrow> int \<Rightarrow> nat result" where
  "py_index n i =
     (if 0 \<le> i \<and> i < int n then Inr (nat i)
      else if i < 0 \<and> - int n \<le> i then Inr (nat (int n + i))
      else Inl IndexError)"

text \<open>
  The block that moves one instance \<open>p\<close> to wave \<open>target_idx\<close> of environment \<open>e\<close>
  (lines 175-181, and in the same shape lines 186-191, 267-272 and 277-282):
  \<^verbatim>\<open>
  old = idxmap.get(p)
  if old and old[1] != target_idx:
      if p in waves[e][old[1]]:
          waves[e][old[1]].remove(p)
      waves[e][target_idx].append(p)
      changed = True
  \<close>
\<close>

definition relocate :: "idxmap \<Rightarrow> env \<Rightarrow> nat \<Rightarrow> string \<Rightarrow> waves \<times> bool \<Rightarrow> (waves \<times> bool) result" where
  "relocate m e target_idx p s =
     (case m p of
        None \<Rightarrow> Inr s
      | Some (old_env, old_idx) \<Rightarrow>
          if old_idx \<noteq> target_idx then
            (case get_wave (fst s) e old_idx of
               Inl err \<Rightarrow> Inl err
             | Inr old_wave \<Rightarrow>
                 let w1 = (if p \<in> set old_wave
                           then set_wave (fst s) e old_idx (remove1 p old_wave) else fst s)
                 in case get_wave w1 e target_idx of
                      Inl err \<Rightarrow> Inl err
                    | Inr new_wave \<Rightarrow> Inr (set_wave w1 e target_idx (new_wave @ [p]), True))
          else Inr s)"

text \<open>
  Rule 1 (lines 164-191) for one base application. The instance lists are selected with
  \<open>endswith('nonprod')\<close> and \<open>endswith('prod')\<close>, without the dash.
\<close>

definition sequencing_rule ::
  "idxmap \<Rightarrow> nat \<Rightarrow> string \<times> string list \<Rightarrow> waves \<times> bool \<Rightarrow> (waves \<times> bool) result" where
  "sequencing_rule m target_waves g s =
     (let instances = snd g;
          nonprod = filter (\<lambda>i. endswith i ''nonprod'') instances;
          prod = filter (\<lambda>i. endswith i ''prod'') instances
      in if nonprod \<noteq> [] \<and> prod \<noteq> [] then
           (let np_idx = min_list (map (idx_or_999 m) nonprod);
                p_idx = min_list (map (idx_or_999 m) prod)
            in if p_idx \<le> np_idx then
                 (if int np_idx < int target_waves - 1
                  then for_each (relocate m Prod (np_idx + 1)) prod s
                  else for_each (relocate m Nonprod (nat (max (int np_idx - 1) 0))) nonprod s)
               else Inr s)
         else Inr s)"

text \<open>
  Rule 3 (lines 203-210), inside \<open>try ... except Exception: pass\<close>: an exception leaves
  the state as it is at that point.
\<close>

definition colocate :: "string \<Rightarrow> env \<Rightarrow> nat \<Rightarrow> env \<Rightarrow> nat \<Rightarrow> waves \<times> bool \<Rightarrow> waves \<times> bool" where
  "colocate tgt tgt_env t_idx src_env s_idx s =
     (case get_wave (fst s) tgt_env t_idx of
        Inl err \<Rightarrow> s
      | Inr t_wave \<Rightarrow>
          let w1 = (if tgt \<in> set t_wave
                    then set_wave (fst s) tgt_env t_idx (remove1 tgt t_wave) else fst s)
          in case get_wave w1 src_env s_idx of
               Inl err \<Rightarrow> (w1, snd s)
             | Inr s_wave \<Rightarrow>
                 if tgt \<notin> set s_wave then (set_wave w1 src_env s_idx (s_wave @ [tgt]), True)
                 else (w1, snd s))"

text \<open>Rule 4 (lines 213-220); \<open>preferred\<close> is \<open>target_waves - 1\<close> when \<open>s_idx >= target_waves\<close>.\<close>

definition localize :: "nat \<Rightarrow> string \<Rightarrow> env \<Rightarrow> nat \<Rightarrow> env \<Rightarrow> nat \<Rightarrow> waves \<times> bool \<Rightarrow> (waves \<times> bool) result" where
  "localize target_waves tgt tgt_env t_idx src_env s_idx s =
     (let preferred = (if int target_waves \<le> int s_idx then int target_waves - 1 else int s_idx)
      in case get_wave (fst s) tgt_env t_idx of
           Inl err \<Rightarrow> Inl err
         | Inr t_wave \<Rightarrow>
             let w1 = (if tgt \<in> set t_wave
                       then set_wave (fst s) tgt_env t_idx (remove1 tgt t_wave) else fst s)
             in case py_index (length (w1 src_env)) preferred of
                  Inl err \<Rightarrow> Inl err
                | Inr k \<Rightarrow>
                    if tgt \<notin> set (w1 src_env ! k)
                    then Inr (set_wave w1 src_env k (w1 src_env ! k @ [tgt]), True)
                    else Inr (w1, snd s))"

text \<open>Rules 3 and 4 (lines 195-220) for one dependency row.\<close>

definition dependency_rule ::
  "app_row list \<Rightarrow> idxmap \<Rightarrow> nat \<Rightarrow> dep_row \<Rightarrow> waves \<times> bool \<Rightarrow> (waves \<times> bool) result" where
  "dependency_rule apps m target_waves r s =
     (let src = source r; tgt = target r; wt = weight r
      in case (m src, m tgt) of
           (Some (src_env, s_idx), Some (tgt_env, t_idx)) \<Rightarrow>
             if src_env \<noteq> tgt_env then Inr s
             else
               (case loc_BCP_score apps src of
                  Inl err \<Rightarrow> Inl err
                | Inr bcp_src \<Rightarrow>
                    (case cell_ge bcp_src 8 of
                       Inl err \<Rightarrow> Inl err
                     | Inr ge8 \<Rightarrow>
                         let s1 = (if ge8 \<and> s_idx \<noteq> t_idx
                                   then colocate tgt tgt_env t_idx src_env s_idx s else s)
                         in case cell_ge bcp_src 7 of
                              Inl err \<Rightarrow> Inl err
                            | Inr ge7 \<Rightarrow>
                                if ge7 \<and> 7 < wt \<and> \<not> (t_idx = s_idx \<or> int t_idx = int s_idx - 1)
                                then localize target_waves tgt tgt_env t_idx src_env s_idx s1
                                else Inr s1))
         | _ \<Rightarrow> Inr s)"

text \<open>
  Rule 2 (lines 222-237). \<open>math.floor(0.25*N)\<close> is \<open>N div 4\<close> and \<open>math.ceil(0.75*N)\<close> is
  \<open>(3 * N + 3) div 4\<close> (the floating-point products are exact for every list length that
  fits in memory).
\<close>

definition middle_wave :: "nat \<Rightarrow> nat" where
  "middle_wave N = (let low = N div 4; high = (3 * N + 3) div 4 - 1 in (low + high) div 2)"

text \<open>The body of the \<open>try\<close> for one member \<open>a\<close> of wave \<open>i\<close>; every exception is swallowed.\<close>

definition place_critical ::
  "app_row list \<Rightarrow> env \<Rightarrow> nat \<Rightarrow> nat \<Rightarrow> nat \<Rightarrow> string \<Rightarrow> waves \<times> bool \<Rightarrow> waves \<times> bool" where
  "place_critical apps e N middle i a s =
     (case loc_BCP_score apps a of
        Inl err \<Rightarrow> s
      | Inr bcp \<Rightarrow>
          (case cell_ge bcp 9 of
             Inl err \<Rightarrow> s
           | Inr ge9 \<Rightarrow>
               if ge9 \<and> (i = 0 \<or> int i = int N - 1) then
                 (case get_wave (fst s) e i of
                    Inl err \<Rightarrow> s
                  | Inr wave_i \<Rightarrow>
                      if a \<notin> set wave_i then s
                      else
                        let w1 = set_wave (fst s) e i (remove1 a wave_i)
                        in case get_wave w1 e middle of
                             Inl err \<Rightarrow> (w1, snd s)
                           | Inr wave_m \<Rightarrow> (set_wave w1 e middle (wave_m @ [a]), True))
               else s))"

text \<open>\<open>for i in range(N): for a in list(waves[env][i]): ...\<close>: the inner loop runs over a copy.\<close>

definition placement_rule :: "app_row list \<Rightarrow> env \<Rightarrow> waves \<times> bool \<Rightarrow> (waves \<times> bool) result" where
  "placement_rule apps e s =
     (let N = length (fst s e)
      in if N \<le> 2 then Inr s
         else
           (let middle = middle_wave N
            in for_each (\<lambda>i s. case get_wave (fst s) e i of
                                 Inl err \<Rightarrow> Inl err
                               | Inr snapshot \<Rightarrow> Inr (fold (place_critical apps e N middle i) snapshot s))
                 [0..<N] s))"

text \<open>
  Rule 5 (lines 239-246): pad with empty waves, then pop the extra waves and extend wave
  \<open>target_waves - 1\<close> with them.
\<close>

function merge_extras :: "nat \<Rightarrow> string list list \<Rightarrow> string list list result" where
  "merge_extras target_waves ws =
     (if target_waves < length ws then
        (let extra = last ws; ws' = butlast ws
         in case py_index (length ws') (int target_waves - 1) of
              Inl err \<Rightarrow> Inl err
            | Inr k \<Rightarrow> merge_extras target_waves (ws'[k := ws' ! k @ extra]))
      else Inr ws)"
  by pat_completeness auto
termination
  by (relation "measure (\<lambda>(target_waves, ws). length ws)") auto

definition integrity_rule :: "nat \<Rightarrow> env \<Rightarrow> waves \<Rightarrow> waves result" where
  "integrity_rule target_waves e w =
     (case merge_extras target_waves (w e @ replicate (target_waves - length (w e)) []) of
        Inl err \<Rightarrow> Inl err
      | Inr ws \<Rightarrow> Inr (w(e := ws)))"

text \<open>One pass of the \<open>while\<close> loop (lines 159-246); \<open>idxmap\<close> is computed once, at its start.\<close>

definition repair_pass :: "app_row list \<Rightarrow> dep_row list \<Rightarrow> nat \<Rightarrow> waves \<Rightarrow> (waves \<times> bool) result" where
  "repair_pass apps deps target_waves w =
     (let idxmap = wave_index_map w
      in case for_each (sequencing_rule idxmap target_waves) (base_groups apps) (w, False) of
           Inl err \<Rightarrow> Inl err
         | Inr s1 \<Rightarrow>
             (case for_each (dependency_rule apps idxmap target_waves) (app_deps deps) s1 of
                Inl err \<Rightarrow> Inl err
              | Inr s2 \<Rightarrow>
                  (case for_each (placement_rule apps) envs s2 of
                     Inl err \<Rightarrow> Inl err
                   | Inr s3 \<Rightarrow>
                       (case for_each (integrity_rule target_waves) envs (fst s3) of
                          Inl err \<Rightarrow> Inl err
                        | Inr w4 \<Rightarrow> Inr (w4, snd s3)))))"

text \<open>\<open>while changed and iters < 40\<close>\<close>

function repair_loop :: "app_row list \<Rightarrow> dep_row list \<Rightarrow> nat \<Rightarrow> bool \<Rightarrow> nat \<Rightarrow> waves \<Rightarrow> waves result" where
  "repair_loop apps deps target_waves changed iters w =
     (if changed \<and> iters < 40 then
        (case repair_pass apps deps target_waves w of
           Inl err \<Rightarrow> Inl err
         | Inr s \<Rightarrow> repair_loop apps deps target_waves (snd s) (iters + 1) (fst s))
      else Inr w)"
  by pat_completeness auto
termination
  by (relation "measure (\<lambda>(apps, deps, target_waves, changed, iters, w). 40 - iters)") auto

section \<open>The secondary sequencing correction: \<open>fix_nonprod_prod_order\<close>\<close>

definition fix_order_rule ::
  "idxmap \<Rightarrow> nat \<Rightarrow> string \<times> string list \<Rightarrow> waves \<times> bool \<Rightarrow> (waves \<times> bool) result" where
  "fix_order_rule m target_waves g s =
     (let instances = snd g;
          nonprod = filter (\<lambda>i. endswith i ''nonprod'') instances;
          prod = filter (\<lambda>i. endswith i ''prod'') instances
      in if nonprod \<noteq> [] \<and> prod \<noteq> [] then
           (let np_idx = min_list (map (idx_or_999 m) nonprod);
                p_idx = min_list (map (idx_or_999 m) prod)
            in if p_idx \<le> np_idx then
                 (if 0 < np_idx
                  then for_each (relocate m Nonprod (nat (max (int np_idx - 1) 0))) nonprod s
                  else if int p_idx < int target_waves - 1
                  then for_each (relocate m Prod (nat (min (int p_idx + 1) (int target_waves - 1)))) prod s
                  else Inr s)
               else Inr s)
         else Inr s)"

definition fix_order_pass :: "app_row list \<Rightarrow> nat \<Rightarrow> waves \<Rightarrow> (waves \<times> bool) result" where
  "fix_order_pass apps target_waves w =
     for_each (fix_order_rule (wave_index_map w) target_waves) (base_groups apps) (w, False)"

function fix_order_loop :: "app_row list \<Rightarrow> nat \<Rightarrow> bool \<Rightarrow> nat \<Rightarrow> waves \<Rightarrow> waves result" where
  "fix_order_loop apps target_waves changed_local it w =
     (if changed_local \<and> it < 40 then
        (case fix_order_pass apps target_waves w of
           Inl err \<Rightarrow> Inl err
         | Inr s \<Rightarrow> fix_order_loop apps target_waves (snd s) (it + 1) (fst s))
      else Inr w)"
  by pat_completeness auto
termination
  by (relation "measure (\<lambda>(apps, target_waves, changed_local, it, w). 40 - it)") auto

definition fix_nonprod_prod_order :: "app_row list \<Rightarrow> nat \<Rightarrow> waves \<Rightarrow> waves result" where
  "fix_nonprod_prod_order apps target_waves w = fix_order_loop apps target_waves True 0 w"

section \<open>The Sanitizer: \<open>sanitize_waves\<close>\<close>

text \<open>
  The inner loop of lines 297-308: keep the members with the environment's suffix that
  have not been seen; the result is the new wave and the new \<open>seen\<close> set.
\<close>

fun keep_new :: "env \<Rightarrow> string list \<Rightarrow> string set \<Rightarrow> string list \<times> string set" where
  "keep_new e [] seen = ([], seen)"
| "keep_new e (a # as) seen =
     (if \<not> endswith a (env_suffix e) then keep_new e as seen
      else if a \<in> seen then keep_new e as seen
      else (let r = keep_new e as (insert a seen) in (a # fst r, snd r)))"

fun clean_waves :: "env \<Rightarrow> string list list \<Rightarrow> string set \<Rightarrow> string list list \<times> string set" where
  "clean_waves e [] seen = ([], seen)"
| "clean_waves e (wv # ws) seen =
     (let r = keep_new e wv seen; rest = clean_waves e ws (snd r)
      in (fst r # fst rest, snd rest))"

definition sanitize_clean :: "nat \<Rightarrow> env \<Rightarrow> waves \<times> string set \<Rightarrow> waves \<times> string set" where
  "sanitize_clean target_waves e s =
     (let ws = fst s e @ replicate (target_waves - length (fst s e)) [];
          r = clean_waves e ws (snd s)
      in ((fst s)(e := fst r), snd r))"

text \<open>Lines 315-319: \<open>waves[env][j % len(waves[env])].append(a)\<close> for the missing ids.\<close>

fun distribute :: "string list \<Rightarrow> nat \<Rightarrow> string list list \<Rightarrow> string list list result" where
  "distribute [] j ws = Inr ws"
| "distribute (a # as) j ws =
     (if length ws = 0 then Inl ZeroDivisionError
      else distribute as (j + 1) (ws[j mod length ws := ws ! (j mod length ws) @ [a]]))"

definition sanitize_missing ::
  "app_row list \<Rightarrow> nat \<Rightarrow> env \<Rightarrow> waves \<times> string set \<Rightarrow> (waves \<times> string set) result" where
  "sanitize_missing apps target_waves e s =
     (let missing = filter (\<lambda>a. a \<notin> snd s) (all_env_apps apps e);
          ws = (if length (fst s e) = 0 then replicate target_waves [] else fst s e)
      in case distribute missing 0 ws of
           Inl err \<Rightarrow> Inl err
         | Inr ws' \<Rightarrow> Inr ((fst s)(e := ws'), snd s \<union> set missing))"

definition sanitize_waves :: "app_row list \<Rightarrow> nat \<Rightarrow> waves \<Rightarrow> waves result" where
  "sanitize_waves apps target_waves w =
     (case for_each (sanitize_missing apps target_waves) envs
             (fold (sanitize_clean target_waves) envs (w, {})) of
        Inl err \<Rightarrow> Inl err
      | Inr s \<Rightarrow> Inr (fst s))"

section \<open>The full pipeline: \<open>enforce_constraints\<close>\<close>

definition enforce_constraints :: "app_row list \<Rightarrow> dep_row list \<Rightarrow> nat \<Rightarrow> waves \<Rightarrow> waves result" where
  "enforce_constraints apps deps target_waves w =
     (case repair_loop apps deps target_waves True 0 w of
        Inl err \<Rightarrow> Inl err
      | Inr w1 \<Rightarrow>
          (case fix_nonprod_prod_order apps target_waves w1 of
             Inl err \<Rightarrow> Inl err
           | Inr w2 \<Rightarrow>
               (case sanitize_waves apps target_waves w2 of
                  Inl err \<Rightarrow> Inl err
                | Inr w3 \<Rightarrow> equalize_waves apps target_waves w3)))"

section \<open>Notions of the specification\<close>

text \<open>An application with BCP score at least 9: an id of the table whose row has such a score.\<close>

definition mission_critical :: "app_row list \<Rightarrow> string \<Rightarrow> bool" where
  "mission_critical apps a \<longleftrightarrow> (\<exists>r \<in> set apps. app_instance_id r = a \<and> 9 \<le> BCP_score r)"

text \<open>
  A wave assignment over the application table with the standard structure:
  \<open>target_waves\<close> waves in each of the two environments, holding ids of the table only
  (what \<open>build_waves_for_algo\<close> and \<open>enforce_constraints\<close> itself produce).
\<close>

definition standard_structure :: "app_row list \<Rightarrow> nat \<Rightarrow> waves \<Rightarrow> bool" where
  "standard_structure apps target_waves w \<longleftrightarrow>
     (\<forall>e \<in> set envs. length (w e) = target_waves \<and>
        (\<forall>wv \<in> set (w e). \<forall>a \<in> set wv. a \<in> set (map app_instance_id apps)))"

section \<open>A small application table for concrete runs\<close>

definition demo_apps :: "app_row list" where
  "demo_apps =
     [\<lparr>app_instance_id = ''A-nonprod'', base_app_id = ''A'', BCP_score = 5\<rparr>,
      \<lparr>app_instance_id = ''A-prod'', base_app_id = ''A'', BCP_score = 5\<rparr>,
      \<lparr>app_instance_id = ''B-nonprod'', base_app_id = ''B'', BCP_score = 9\<rparr>,
      \<lparr>app_instance_id = ''B-prod'', base_app_id = ''B'', BCP_score = 9\<rparr>,
      \<lparr>app_instance_id = ''C-nonprod'', base_app_id = ''C'', BCP_score = 5\<rparr>]"

definition demo_waves :: waves where
  "demo_waves = (\<lambda>e. case e of
       Nonprod \<Rightarrow> [[''A-nonprod'', ''B-nonprod''], [''C-nonprod'']]
     | Prod \<Rightarrow> [[''A-prod''], [''B-prod'']])"

text \<open>
  The sequencing scenario: one base application whose nonprod and prod instances are both
  in wave 0 of their environments, with eight waves per environment.
\<close>

definition seq_apps :: "app_row list" where
  "seq_apps =
     [\<lparr>app_instance_id = ''A-nonprod'', base_app_id = ''A'', BCP_score = 5\<rparr>,
      \<lparr>app_instance_id = ''A-prod'', base_app_id = ''A'', BCP_score = 5\<rparr>]"

definition seq_waves :: waves where
  "seq_waves = (\<lambda>e. case e of
       Nonprod \<Rightarrow> [[''A-nonprod''], [], [], [], [], [], [], []]
     | Prod \<Rightarrow> [[''A-prod''], [], [], [], [], [], [], []])"

text \<open>
  The placement scenario: eight nonprod waves with a BCP 9 application in wave 0 and a
  BCP 10 application in wave 7.
\<close>

definition crit_apps :: "app_row list" where
  "crit_apps =
     [\<lparr>app_instance_id = ''A-nonprod'', base_app_id = ''A'', BCP_score = 9\<rparr>,
      \<lparr>app_instance_id = ''B-nonprod'', base_app_id = ''B'', BCP_score = 5\<rparr>,
      \<lparr>app_instance_id = ''C-nonprod'', base_app_id = ''C'', BCP_score = 10\<rparr>,
      \<lparr>app_instance_id = ''D-nonprod'', base_app_id = ''D'', BCP_score = 3\<rparr>]"

definition crit_waves :: waves where
  "crit_waves = (\<lambda>e. case e of
       Nonprod \<Rightarrow> [[''A-nonprod'', ''B-nonprod''], [], [], [''D-nonprod''], [], [], [], [''C-nonprod'']]
     | Prod \<Rightarrow> [[], [], [], [], [], [], [], []])"

text \<open>A second assignment of the same table, with the applications placed differently.\<close>

definition demo_waves_alt :: waves where
  "demo_waves_alt = (\<lambda>e. case e of
       Nonprod \<Rightarrow> [[''C-nonprod''], [''A-nonprod'', ''B-nonprod'']]
     | Prod \<Rightarrow> [[], [''A-prod'', ''B-prod'']])"

text \<open>
  The sizing scenario: 40 nonprod and 42 prod application instances, for eight waves.
\<close>

definition scenario_apps :: "app_row list" where
  "scenario_apps =
     [\<lparr>app_instance_id = ''N00-nonprod'', base_app_id = ''N00'', BCP_score = 1\<rparr>,
      \<lparr>app_instance_id = ''N01-nonprod'', base_app_id = ''N01'', BCP_score = 8\<rparr>,
      \<lparr>app_instance_id = ''N02-nonprod'', base_app_id = ''N02'', BCP_score = 5\<rparr>,
      \<lparr>app_instance_id = ''N03-nonprod'', base_app_id = ''N03'', BCP_score = 2\<rparr>,
      \<lparr>app_instance_id = ''N04-nonprod'', base_app_id = ''N04'', BCP_score = 9\<rparr>,
      \<lparr>app_instance_id = ''N05-nonprod'', base_app_id = ''N05'', BCP_score = 6\<rparr>,
      \<lparr>app_instance_id = ''N06-nonprod'', base_app_id = ''N06'', BCP_score = 3\<rparr>,
      \<lparr>app_instance_id = ''N07-nonprod'', base_app_id = ''N07'', BCP_score = 10\<rparr>,
      \<lparr>app_instance_id = ''N08-nonprod'', base_app_id = ''N08'', BCP_score = 7\<rparr>,
      \<lparr>app_instance_id = ''N09-nonprod'', base_app_id = ''N09'', BCP_score = 4\<rparr>,
      \<lparr>app_instance_id = ''N10-nonprod'', base_app_id = ''N10'', BCP_score = 1\<rparr>,
      \<lparr>app_instance_id = ''N11-nonprod'', base_app_id = ''N11'', BCP_score = 8\<rparr>,
      \<lparr>app_instance_id = ''N12-nonprod'', base_app_id = ''N12'', BCP_score = 5\<rparr>,
      \<lparr>app_instance_id = ''N13-nonprod'', base_app_id = ''N13'', BCP_score = 2\<rparr>,
      \<lparr>app_instance_id = ''N14-nonprod'', base_app_id = ''N14'', BCP_score = 9\<rparr>,
      \<lparr>app_instance_id = ''N15-nonprod'', base_app_id = ''N15'', BCP_score = 6\<rparr>,
      \<lparr>app_instance_id = ''N16-nonprod'', base_app_id = ''N16'', BCP_score = 3\<rparr>,
      \<lparr>app_instance_id = ''N17-nonprod'', base_app_id = ''N17'', BCP_score = 10\<rparr>,
      \<lparr>app_instance_id = ''N18-nonprod'', base_app_id = ''N18'', BCP_score = 7\<rparr>,
      \<lparr>app_instance_id = ''N19-nonprod'', base_app_id = ''N19'', BCP_score = 4\<rparr>,
      \<lparr>app_instance_id = ''N20-nonprod'', base_app_id = ''N20'', BCP_score = 1\<rparr>,
      \<lparr>app_instance_id = ''N21-nonprod'', base_app_id = ''N21'', BCP_score = 8\<rparr>,
      \<lparr>app_instance_id = ''N22-nonprod'', base_app_id = ''N22'', BCP_score = 5\<rparr>,
      \<lparr>app_instance_id = ''N23-nonprod'', base_app_id = ''N23'', BCP_score = 2\<rparr>,
      \<lparr>app_instance_id = ''N24-nonprod'', base_app_id = ''N24'', BCP_score = 9\<rparr>,
      \<lparr>app_instance_id = ''N25-nonprod'', base_app_id = ''N25'', BCP_score = 6\<rparr>,
      \<lparr>app_instance_id = ''N26-nonprod'', base_app_id = ''N26'', BCP_score = 3\<rparr>,
      \<lparr>app_instance_id = ''N27-nonprod'', base_app_id = ''N27'', BCP_score = 10\<rparr>,
      \<lparr>app_instance_id = ''N28-nonprod'', base_app_id = ''N28'', BCP_score = 7\<rparr>,
      \<lparr>app_instance_id = ''N29-nonprod'', base_app_id = ''N29'', BCP_score = 4\<rparr>,
      \<lparr>app_instance_id = ''N30-nonprod'', base_app_id = ''N30'', BCP_score = 1\<rparr>,
      \<lparr>app_instance_id = ''N31-nonprod'', base_app_id = ''N31'', BCP_score = 8\<rparr>,
      \<lparr>app_instance_id = ''N32-nonprod'', base_app_id = ''N32'', BCP_score = 5\<rparr>,
      \<lparr>app_instance_id = ''N33-nonprod'', base_app_id = ''N33'', BCP_score = 2\<rparr>,
      \<lparr>app_instance_id = ''N34-nonprod'', base_app_id = ''N34'', BCP_score = 9\<rparr>,
      \<lparr>app_instance_id = ''N35-nonprod'', base_app_id = ''N35'', BCP_score = 6\<rparr>,
      \<lparr>app_instance_id = ''N36-nonprod'', base_app_id = ''N36'', BCP_score = 3\<rparr>,
      \<lparr>app_instance_id = ''N37-nonprod'', base_app_id = ''N37'', BCP_score = 10\<rparr>,
      \<lparr>app_instance_id = ''N38-nonprod'', base_app_id = ''N38'', BCP_score = 7\<rparr>,
      \<lparr>app_instance_id = ''N39-nonprod'', base_app_id = ''N39'', BCP_score = 4\<rparr>,
      \<lparr>app_instance_id = ''P00-prod'', base_app_id = ''P00'', BCP_score = 1\<rparr>,
      \<lparr>app_instance_id = ''P01-prod'', base_app_id = ''P01'', BCP_score = 4\<rparr>,
      \<lparr>app_instance_id = ''P02-prod'', base_app_id = ''P02'', BCP_score = 7\<rparr>,
      \<lparr>app_instance_id = ''P03-prod'', base_app_id = ''P03'', BCP_score = 10\<rparr>,
      \<lparr>app_instance_id = ''P04-prod'', base_app_id = ''P04'', BCP_score = 3\<rparr>,
      \<lparr>app_instance_id = ''P05-prod'', base_app_id = ''P05'', BCP_score = 6\<rparr>,
      \<lparr>app_instance_id = ''P06-prod'', base_app_id = ''P06'', BCP_score = 9\<rparr>,
      \<lparr>app_instance_id = ''P07-prod'', base_app_id = ''P07'', BCP_score = 2\<rparr>,
      \<lparr>app_instance_id = ''P08-prod'', base_app_id = ''P08'', BCP_score = 5\<rparr>,
      \<lparr>app_instance_id = ''P09-prod'', base_app_id = ''P09'', BCP_score = 8\<rparr>,
      \<lparr>app_instance_id = ''P10-prod'', base_app_id = ''P10'', BCP_score = 1\<rparr>,
      \<lparr>app_instance_id = ''P11-prod'', base_app_id = ''P11'', BCP_score = 4\<rparr>,
      \<lparr>app_instance_id = ''P12-prod'', base_app_id = ''P12'', BCP_score = 7\<rparr>,
      \<lparr>app_instance_id = ''P13-prod'', base_app_id = ''P13'', BCP_score = 10\<rparr>,
      \<lparr>app_instance_id = ''P14-prod'', base_app_id = ''P14'', BCP_score = 3\<rparr>,
      \<lparr>app_instance_id = ''P15-prod'', base_app_id = ''P15'', BCP_score = 6\<rparr>,
      \<lparr>app_instance_id = ''P16-prod'', base_app_id = ''P16'', BCP_score = 9\<rparr>,
      \<lparr>app_instance_id = ''P17-prod'', base_app_id = ''P17'', BCP_score = 2\<rparr>,
      \<lparr>app_instance_id = ''P18-prod'', base_app_id = ''P18'', BCP_score = 5\<rparr>,
      \<lparr>app_instance_id = ''P19-prod'', base_app_id = ''P19'', BCP_score = 8\<rparr>,
      \<lparr>app_instance_id = ''P20-prod'', base_app_id = ''P20'', BCP_score = 1\<rparr>,
      \<lparr>app_instance_id = ''P21-prod'', base_app_id = ''P21'', BCP_score = 4\<rparr>,
      \<lparr>app_instance_id = ''P22-prod'', base_app_id = ''P22'', BCP_score = 7\<rparr>,
      \<lparr>app_instance_id = ''P23-prod'', base_app_id = ''P23'', BCP_score = 10\<rparr>,
      \<lparr>app_instance_id = ''P24-prod'', base_app_id = ''P24'', BCP_score = 3\<rparr>,
      \<lparr>app_instance_id = ''P25-prod'', base_app_id = ''P25'', BCP_score = 6\<rparr>,
      \<lparr>app_instance_id = ''P26-prod'', base_app_id = ''P26'', BCP_score = 9\<rparr>,
      \<lparr>app_instance_id = ''P27-prod'', base_app_id = ''P27'', BCP_score = 2\<rparr>,
      \<lparr>app_instance_id = ''P28-prod'', base_app_id = ''P28'', BCP_score = 5\<rparr>,
      \<lparr>app_instance_id = ''P29-prod'', base_app_id = ''P29'', BCP_score = 8\<rparr>,
      \<lparr>app_instance_id = ''P30-prod'', base_app_id = ''P30'', BCP_score = 1\<rparr>,
      \<lparr>app_instance_id = ''P31-prod'', base_app_id = ''P31'', BCP_score = 4\<rparr>,
      \<lparr>app_instance_id = ''P32-prod'', base_app_id = ''P32'', BCP_score = 7\<rparr>,
      \<lparr>app_instance_id = ''P33-prod'', base_app_id = ''P33'', BCP_score = 10\<rparr>,
      \<lparr>app_instance_id = ''P34-prod'', base_app_id = ''P34'', BCP_score = 3\<rparr>,
      \<lparr>app_instance_id = ''P35-prod'', base_app_id = ''P35'', BCP_score = 6\<rparr>,
      \<lparr>app_instance_id = ''P36-prod'', base_app_id = ''P36'', BCP_score = 9\<rparr>,
      \<lparr>app_instance_id = ''P37-prod'', base_app_id = ''P37'', BCP_score = 2\<rparr>,
      \<lparr>app_instance_id = ''P38-prod'', base_app_id = ''P38'', BCP_score = 5\<rparr>,
      \<lparr>app_instance_id = ''P39-prod'', base_app_id = ''P39'', BCP_score = 8\<rparr>,
      \<lparr>app_instance_id = ''P40-prod'', base_app_id = ''P40'', BCP_score = 1\<rparr>,
      \<lparr>app_instance_id = ''P41-prod'', base_app_id = ''P41'', BCP_score = 4\<rparr>]"

section \<open>Properties of the Equalizer\<close>

lemma filter_unique_row:
  assumes "distinct (map f rs)" and "x \<in> f ` set rs"
  shows "\<exists>r. filter (\<lambda>r. f r = x) rs = [r] \<and> r \<in> set rs"
  using assms
proof (induction rs)
  case Nil
  then show ?case by simp
next
  case (Cons r rs)
  show ?case
  proof (cases "f r = x")
    case True
    with Cons.prems have "x \<notin> f ` set rs" by auto
    then have "filter (\<lambda>r. f r = x) rs = []"
      by (auto simp: filter_empty_conv)
    with True show ?thesis by simp
  next
    case False
    with Cons show ?thesis by auto
  qed
qed

lemma loc_BCP_score_unique:
  assumes "distinct (map app_instance_id apps)" and "x \<in> app_instance_id ` set apps"
  shows "\<exists>v. loc_BCP_score apps x = Inr (Scalar v)"
proof -
  from filter_unique_row[OF assms] obtain r
    where "filter (\<lambda>r. app_instance_id r = x) apps = [r]" by blast
  then show ?thesis by (simp add: loc_BCP_score_def)
qed

lemma map_result_Inr:
  assumes "\<forall>x \<in> set xs. \<exists>y. f x = Inr y \<and> P y"
  shows "\<exists>ys. map_result f xs = Inr ys \<and> (\<forall>y \<in> set ys. P y)"
  using assms
proof (induction xs)
  case Nil
  then show ?case by simp
next
  case (Cons x xs)
  then obtain y where y: "f x = Inr y" "P y" by auto
  from Cons obtain ys where ys: "map_result f xs = Inr ys" "\<forall>y \<in> set ys. P y" by auto
  from y ys show ?case by simp
qed

lemma sorted_by_BCP_desc_unique:
  assumes "distinct (map app_instance_id apps)" and "set xs \<subseteq> app_instance_id ` set apps"
  shows "sorted_by_BCP_desc apps xs = Inr (sort_key (\<lambda>x. - BCP_of apps x) xs)"
proof -
  have "\<forall>x \<in> set xs. \<exists>c. loc_BCP_score apps x = Inr c \<and> \<not> is_Series c"
  proof
    fix x assume "x \<in> set xs"
    with assms(2) have "x \<in> app_instance_id ` set apps" by blast
    from loc_BCP_score_unique[OF assms(1) this] obtain v
      where "loc_BCP_score apps x = Inr (Scalar v)" by blast
    then show "\<exists>c. loc_BCP_score apps x = Inr c \<and> \<not> is_Series c" by simp
  qed
  from map_result_Inr[OF this] obtain keys
    where "map_result (loc_BCP_score apps) xs = Inr keys" "\<forall>k \<in> set keys. \<not> is_Series k"
    by blast
  then show ?thesis by (simp add: sorted_by_BCP_desc_def)
qed

lemma all_env_apps_subset: "set (all_env_apps apps e) \<subseteq> app_instance_id ` set apps"
  by (auto simp: all_env_apps_def)

lemma map_const_replicate:
  "(\<And>i. i \<in> set xs \<Longrightarrow> f i = c) \<Longrightarrow> map f xs = replicate (length xs) c"
  by (induction xs) auto

lemma wave_sizes_split:
  assumes "0 < n"
  shows "wave_sizes t n =
           replicate (t mod n) (t div n + 1) @ replicate (n - t mod n) (t div n)"
proof -
  let ?r = "t mod n" and ?b = "t div n"
  let ?f = "\<lambda>i. if i < ?r then ?b + 1 else ?b"
  have r: "?r \<le> n" using assms by (simp add: less_imp_le)
  have split: "[0..<n] = [0..<?r] @ [?r..<n]"
    using r upt_add_eq_append[of 0 ?r "n - ?r"] by simp
  have lo: "map ?f [0..<?r] = replicate ?r (?b + 1)"
    using map_const_replicate[of "[0..<?r]" ?f "?b + 1"] by simp
  have hi: "map ?f [?r..<n] = replicate (n - ?r) ?b"
    using map_const_replicate[of "[?r..<n]" ?f ?b] by simp
  have "map ?f [0..<n] = map ?f [0..<?r] @ map ?f [?r..<n]"
    by (subst split) simp
  with lo hi show ?thesis
    by (simp add: wave_sizes_def Let_def)
qed

lemma length_slice_loop: "length (slice_loop xs idx sizes) = length sizes"
  by (induction sizes arbitrary: idx) auto

lemma concat_slice_loop:
  "concat (slice_loop xs idx sizes) = take (sum_list sizes) (drop idx xs)"
proof (induction sizes arbitrary: idx)
  case Nil
  then show ?case by simp
next
  case (Cons s sizes)
  have "drop (idx + s) xs = drop s (drop idx xs)" by (simp add: add.commute)
  with Cons show ?case by (simp add: take_add)
qed

lemma map_length_slice_loop:
  "idx + sum_list sizes \<le> length xs \<Longrightarrow> map length (slice_loop xs idx sizes) = sizes"
  by (induction sizes arbitrary: idx) auto

lemma sum_list_wave_sizes:
  assumes "0 < n"
  shows "sum_list (wave_sizes t n) = t"
proof -
  let ?q = "t div n" and ?r = "t mod n"
  have "?r \<le> n" using assms by (simp add: less_imp_le)
  then obtain d where d: "n = ?r + d" using le_Suc_ex by blast
  have nd: "n - ?r = d" using d by linarith
  have "?r * (?q + 1) + (n - ?r) * ?q = ?r * (?q + 1) + d * ?q"
    by (simp only: nd)
  also have "\<dots> = ?r + (?r + d) * ?q"
    by (simp add: add_mult_distrib)
  also have "\<dots> = ?r + n * ?q"
    using d by simp
  also have "\<dots> = t"
    by simp
  finally show ?thesis
    by (simp add: wave_sizes_split[OF assms] sum_list_replicate)
qed

lemma ceil_div_nat:
  assumes "0 < (n::nat)" and "0 < t mod n"
  shows "(t + n - 1) div n = t div n + 1"
proof -
  let ?q = "t div n" and ?r = "t mod n"
  have r: "?r < n" using assms(1) by simp
  have t: "t = ?q * n + ?r" by simp
  have "t + n - 1 = (?r - 1) + (?q + 1) * n"
  proof -
    have "t + n - 1 = (?q * n + ?r) + n - 1" using t by simp
    also have "\<dots> = (?r - 1) + (?q * n + n)" using assms(2) by linarith
    also have "\<dots> = (?r - 1) + (?q + 1) * n" by (simp add: add_mult_distrib)
    finally show ?thesis .
  qed
  moreover have "((?r - 1) + (?q + 1) * n) div n = (?q + 1) + (?r - 1) div n"
    using assms(1) by (intro div_mult_self1) simp
  moreover have "(?r - 1) div n = 0"
    using r by simp
  ultimately show ?thesis by simp
qed

lemma largest_remainder_sizes_eq:
  assumes "0 < n"
  shows "largest_remainder_sizes t n = wave_sizes t n"
proof (cases "t mod n = 0")
  case True
  then show ?thesis
    by (simp add: largest_remainder_sizes_def wave_sizes_split[OF assms])
next
  case False
  then show ?thesis
    using ceil_div_nat[OF assms, of t]
    by (simp add: largest_remainder_sizes_def wave_sizes_split[OF assms])
qed

lemma BCP_of_row:
  assumes "distinct (map app_instance_id apps)" and "r \<in> set apps"
  shows "BCP_of apps (app_instance_id r) = BCP_score r"
proof -
  have "app_instance_id r \<in> app_instance_id ` set apps" using assms(2) by blast
  from filter_unique_row[OF assms(1) this] obtain r'
    where r': "filter (\<lambda>x. app_instance_id x = app_instance_id r) apps = [r']" by blast
  have "r \<in> set (filter (\<lambda>x. app_instance_id x = app_instance_id r) apps)"
    using assms(2) by simp
  with r' have "r' = r" by simp
  with r' show ?thesis by (simp add: BCP_of_def loc_BCP_score_def)
qed

lemma equalize_env_unique:
  assumes "0 < target_waves" and "distinct (map app_instance_id apps)"
  shows "equalize_env apps target_waves e =
           Inr (slice_loop (sort_key (\<lambda>x. - BCP_of apps x) (all_env_apps apps e)) 0
                  (wave_sizes (length (all_env_apps apps e)) target_waves))"
proof -
  let ?ids = "all_env_apps apps e"
  let ?sorted = "sort_key (\<lambda>x. - BCP_of apps x) ?ids"
  have s: "sorted_by_BCP_desc apps ?ids = Inr ?sorted"
    by (rule sorted_by_BCP_desc_unique[OF assms(2) all_env_apps_subset])
  show ?thesis
  proof (cases "?ids = []")
    case True
    have "slice_loop ([]::string list) idx sizes = replicate (length sizes) []" for idx sizes
      by (induction sizes arbitrary: idx) auto
    then show ?thesis
      using True s by (simp add: equalize_env_def wave_sizes_def)
  next
    case False
    then show ?thesis
      using s assms(1) by (simp add: equalize_env_def)
  qed
qed

lemma equalize_waves_unique:
  assumes "0 < target_waves" and "distinct (map app_instance_id apps)"
  shows "equalize_waves apps target_waves w =
           Inr (\<lambda>e. slice_loop (sort_key (\<lambda>x. - BCP_of apps x) (all_env_apps apps e)) 0
                  (wave_sizes (length (all_env_apps apps e)) target_waves))"
proof -
  have "(w(Nonprod := f Nonprod, Prod := f Prod)) = f" for f :: waves
  proof
    fix e show "(w(Nonprod := f Nonprod, Prod := f Prod)) e = f e" by (cases e) auto
  qed
  then show ?thesis
    by (simp add: equalize_waves_def envs_def equalize_env_unique[OF assms])
qed

lemma equalize_slices_props:
  fixes xs :: "'a list"
  assumes "0 < n"
  defines "ws \<equiv> slice_loop xs 0 (wave_sizes (length xs) n)"
  shows "concat ws = xs" and "length ws = n" and "map length ws = largest_remainder_sizes (length xs) n"
proof -
  show "concat ws = xs"
    by (simp add: ws_def concat_slice_loop sum_list_wave_sizes[OF assms(1)])
  show "length ws = n"
    by (simp add: ws_def length_slice_loop wave_sizes_def Let_def)
  show "map length ws = largest_remainder_sizes (length xs) n"
    by (simp add: ws_def map_length_slice_loop sum_list_wave_sizes[OF assms(1)]
          largest_remainder_sizes_eq[OF assms(1)])
qed

text \<open>
  C1. For every environment the Equalizer returns exactly \<open>target_waves\<close> waves whose
  concatenation is the environment's instances in descending BCP order (a permutation of
  them, equal scores keeping the order of the application table), and whose sizes are the
  largest-remainder sizes: \<open>total mod N\<close> waves of size \<open>ceil(total/N)\<close> followed by waves
  of size \<open>floor(total/N)\<close>; for 40 and 42 instances and 8 waves the sizes are
  \<open>[5,5,5,5,5,5,5,5]\<close> and \<open>[6,6,5,5,5,5,5,5]\<close>. The sort key \<open>BCP_of\<close> of an id is the
  BCP score of its row.
\<close>

theorem equalize_waves_sorted_largest_remainder:
  assumes "0 < target_waves" and "distinct (map app_instance_id apps)"
  shows "\<exists>w'. equalize_waves apps target_waves w = Inr w' \<and>
           (\<forall>e. mset (concat (w' e)) = mset (all_env_apps apps e) \<and>
                sorted_wrt (\<lambda>a b. BCP_of apps b \<le> BCP_of apps a) (concat (w' e)) \<and>
                (\<forall>k. filter (\<lambda>x. BCP_of apps x = k) (concat (w' e)) =
                     filter (\<lambda>x. BCP_of apps x = k) (all_env_apps apps e)) \<and>
                length (w' e) = target_waves \<and>
                map length (w' e) =
                  largest_remainder_sizes (length (all_env_apps apps e)) target_waves) \<and>
           (\<forall>r \<in> set apps. BCP_of apps (app_instance_id r) = BCP_score r) \<and>
           largest_remainder_sizes 40 8 = [5, 5, 5, 5, 5, 5, 5, 5] \<and>
           largest_remainder_sizes 42 8 = [6, 6, 5, 5, 5, 5, 5, 5]"
proof -
  let ?key = "\<lambda>x. - BCP_of apps x"
  let ?w' = "\<lambda>e. slice_loop (sort_key ?key (all_env_apps apps e)) 0
                  (wave_sizes (length (all_env_apps apps e)) target_waves)"
  have eq: "equalize_waves apps target_waves w = Inr ?w'"
    by (rule equalize_waves_unique[OF assms])
  have per_env: "mset (concat (?w' e)) = mset (all_env_apps apps e) \<and>
                sorted_wrt (\<lambda>a b. BCP_of apps b \<le> BCP_of apps a) (concat (?w' e)) \<and>
                (\<forall>k. filter (\<lambda>x. BCP_of apps x = k) (concat (?w' e)) =
                     filter (\<lambda>x. BCP_of apps x = k) (all_env_apps apps e)) \<and>
                length (?w' e) = target_waves \<and>
                map length (?w' e) =
                  largest_remainder_sizes (length (all_env_apps apps e)) target_waves" for e
  proof -
    let ?ids = "all_env_apps apps e"
    let ?s = "sort_key ?key ?ids"
    have len: "length ?s = length ?ids" by simp
    have c: "concat (?w' e) = ?s"
      using equalize_slices_props(1)[OF assms(1), of ?s] by (simp only: len)
    have l: "length (?w' e) = target_waves"
      using equalize_slices_props(2)[OF assms(1), of ?s] by (simp only: len)
    have m: "map length (?w' e) = largest_remainder_sizes (length ?ids) target_waves"
      using equalize_slices_props(3)[OF assms(1), of ?s] by (simp only: len)
    have "sorted (map ?key ?s)" by (rule sorted_sort_key)
    then have srt: "sorted_wrt (\<lambda>a b. BCP_of apps b \<le> BCP_of apps a) ?s"
      by (simp add: sorted_map)
    have stab: "filter (\<lambda>x. BCP_of apps x = k) ?s = filter (\<lambda>x. BCP_of apps x = k) ?ids" for k
      using sort_key_stable[of ?key "- k" ?ids] by simp
    have "mset ?s = mset ?ids" by simp
    then show ?thesis
      using c l m srt stab by simp
  qed
  have all_env: "\<forall>e. mset (concat (?w' e)) = mset (all_env_apps apps e) \<and>
                sorted_wrt (\<lambda>a b. BCP_of apps b \<le> BCP_of apps a) (concat (?w' e)) \<and>
                (\<forall>k. filter (\<lambda>x. BCP_of apps x = k) (concat (?w' e)) =
                     filter (\<lambda>x. BCP_of apps x = k) (all_env_apps apps e)) \<and>
                length (?w' e) = target_waves \<and>
                map length (?w' e) =
                  largest_remainder_sizes (length (all_env_apps apps e)) target_waves"
    by (intro allI per_env)
  have s40: "largest_remainder_sizes 40 8 = [5, 5, 5, 5, 5, 5, 5, 5]"
    by code_simp
  have s42: "largest_remainder_sizes 42 8 = [6, 6, 5, 5, 5, 5, 5, 5]"
    by code_simp
  have rows: "\<forall>r \<in> set apps. BCP_of apps (app_instance_id r) = BCP_score r"
    using BCP_of_row[OF assms(2)] by blast
  show ?thesis
    by (rule exI[of _ ?w'], intro conjI) (rule eq all_env rows s40 s42)+
qed

lemma demo_apps_distinct: "distinct (map app_instance_id demo_apps)"
  by (simp add: demo_apps_def)

lemma demo_all_env_apps:
  "all_env_apps demo_apps Nonprod = [''A-nonprod'', ''B-nonprod'', ''C-nonprod'']"
  "all_env_apps demo_apps Prod = [''A-prod'', ''B-prod'']"
  by (simp_all add: demo_apps_def all_env_apps_def endswith_def env_suffix_def)

lemma scenario_distinct: "distinct (map app_instance_id scenario_apps)"
  by (simp add: scenario_apps_def)

lemma scenario_lengths:
  "length (all_env_apps scenario_apps Nonprod) = 40"
  "length (all_env_apps scenario_apps Prod) = 42"
  by (simp_all add: scenario_apps_def all_env_apps_def endswith_def env_suffix_def)

theorem equalize_waves_sorted_largest_remainder_witness:
  "(0::nat) < 8 \<and> distinct (map app_instance_id scenario_apps) \<and>
   (\<exists>w'. equalize_waves scenario_apps 8 (\<lambda>e. []) = Inr w' \<and>
      map length (w' Nonprod) = [5, 5, 5, 5, 5, 5, 5, 5] \<and>
      map length (w' Prod) = [6, 6, 5, 5, 5, 5, 5, 5])"
proof -
  have pos: "(0::nat) < 8" by simp
  from equalize_waves_sorted_largest_remainder[OF pos scenario_distinct, of "\<lambda>e. []"]
  obtain w' where w': "equalize_waves scenario_apps 8 (\<lambda>e. []) = Inr w'"
    and sz: "\<And>e. map length (w' e) = largest_remainder_sizes (length (all_env_apps scenario_apps e)) 8"
    and s40: "largest_remainder_sizes 40 8 = [5, 5, 5, 5, 5, 5, 5, 5]"
    and s42: "largest_remainder_sizes 42 8 = [6, 6, 5, 5, 5, 5, 5, 5]"
    by blast
  have m1: "map length (w' Nonprod) = [5, 5, 5, 5, 5, 5, 5, 5]"
    and m2: "map length (w' Prod) = [6, 6, 5, 5, 5, 5, 5, 5]"
    using sz[of Nonprod] sz[of Prod] by (simp_all only: scenario_lengths s40 s42)
  show ?thesis
    by (intro conjI exI[of _ w'] pos scenario_distinct w' m1 m2)
qed

section \<open>Properties of the Validator\<close>

lemma map_result_Inr_D:
  "map_result f xs = Inr ys \<Longrightarrow> length ys = length xs \<and> (\<forall>i < length xs. f (xs ! i) = Inr (ys ! i))"
proof (induction xs arbitrary: ys)
  case Nil
  then show ?case by simp
next
  case (Cons x xs)
  from Cons.prems obtain y ys' where y: "f x = Inr y" and ys': "map_result f xs = Inr ys'"
    and ys: "ys = y # ys'"
    by (auto split: sum.splits)
  from Cons.IH[OF ys'] have ih: "length ys' = length xs" "\<forall>i < length xs. f (xs ! i) = Inr (ys' ! i)"
    by simp_all
  show ?case
  proof (intro conjI allI impI)
    show "length ys = length (x # xs)" using ih(1) ys by simp
  next
    fix i assume "i < length (x # xs)"
    then show "f ((x # xs) ! i) = Inr (ys ! i)"
      using y ih(2) ys by (cases i) simp_all
  qed
qed

lemma concat_result_member:
  assumes "concat_result f xs = Inr zs" and "z \<in> set zs"
  shows "\<exists>x \<in> set xs. \<exists>ys. f x = Inr ys \<and> z \<in> set ys"
proof -
  from assms(1) obtain yss where yss: "map_result f xs = Inr yss" and zs: "zs = concat yss"
    by (auto simp: concat_result_def split: sum.splits)
  from assms(2) zs obtain ys where "ys \<in> set yss" "z \<in> set ys" by auto
  then obtain i where i: "i < length yss" "yss ! i = ys" by (auto simp: in_set_conv_nth)
  from map_result_Inr_D[OF yss] i have "i < length xs" "f (xs ! i) = Inr ys" by auto
  with \<open>z \<in> set ys\<close> show ?thesis by (metis nth_mem)
qed

lemma check_dep_kinds:
  assumes "check_dep apps m alg r = Inr ys" and "z \<in> set ys"
  shows "(\<exists>s t. z = Cross_env_dependency alg s t) \<or> (\<exists>s t i j. z = Cross_wave_high_bcp alg s t i j)
         \<or> (\<exists>s t wt i j. z = Critical_not_co_migrate alg s t wt i j)"
  using assms
  by (auto simp: check_dep_def Let_def split: option.splits sum.splits if_splits prod.splits)

lemma check_edge_app_kinds:
  assumes "check_edge_app apps alg e N ia = Inr ys" and "z \<in> set ys"
  shows "z = Mission_critical_edge_wave alg e (fst ia) (snd ia)"
  using assms
  by (auto simp: check_edge_app_def Let_def split: sum.splits if_splits)

lemma check_deps_no_sequencing:
  assumes "check_deps apps deps m alg = Inr ys"
  shows "Nonprod_not_before_prod a b x y \<notin> set ys"
    and "Nonprod_production_gap_too_small a b g \<notin> set ys"
  using concat_result_member[OF assms[unfolded check_deps_def]] check_dep_kinds
  by fastforce+

lemma check_edge_waves_kinds:
  assumes "check_edge_waves apps w alg = Inr ys" and "z \<in> set ys"
  shows "\<exists>e i a. z = Mission_critical_edge_wave alg e i a"
proof -
  from concat_result_member[OF assms[unfolded check_edge_waves_def]]
  obtain e zs where zs: "concat_result (check_edge_app apps alg e (length (w e))) (indexed_members (w e)) = Inr zs"
    and z: "z \<in> set zs" by blast
  from concat_result_member[OF zs z] check_edge_app_kinds show ?thesis by blast
qed

lemma check_edge_waves_no_sequencing:
  assumes "check_edge_waves apps w alg = Inr ys"
  shows "Nonprod_not_before_prod a b x y \<notin> set ys"
    and "Nonprod_production_gap_too_small a b g \<notin> set ys"
  using check_edge_waves_kinds[OF assms] by fastforce+

lemma static_checks_no_sequencing:
  "Nonprod_not_before_prod a b x y \<notin> set (check_wave_counts w alg)"
  "Nonprod_production_gap_too_small a b g \<notin> set (check_wave_counts w alg)"
  "Nonprod_not_before_prod a b x y \<notin> set (check_wave_sizes w alg)"
  "Nonprod_production_gap_too_small a b g \<notin> set (check_wave_sizes w alg)"
  "Nonprod_not_before_prod a b x y \<notin> set (check_exclusivity w alg)"
  "Nonprod_production_gap_too_small a b g \<notin> set (check_exclusivity w alg)"
  by (auto simp: check_wave_counts_def check_wave_sizes_def check_exclusivity_def split: if_splits)

lemma check_base_group_iff:
  "(\<exists>x y. Nonprod_not_before_prod alg b x y \<in> set (check_base_group m alg g)) \<longleftrightarrow>
   (\<exists>d. Nonprod_production_gap_too_small alg b d \<in> set (check_base_group m alg g))"
  by (auto simp: check_base_group_def Let_def split: if_splits)

lemma check_sequencing_iff:
  "(\<exists>x y. Nonprod_not_before_prod alg b x y \<in> set (check_sequencing apps m alg)) \<longleftrightarrow>
   (\<exists>d. Nonprod_production_gap_too_small alg b d \<in> set (check_sequencing apps m alg))"
proof -
  have "(\<exists>x y. Nonprod_not_before_prod alg b x y \<in> set (check_sequencing apps m alg)) \<longleftrightarrow>
        (\<exists>g \<in> set (base_groups apps). \<exists>x y. Nonprod_not_before_prod alg b x y \<in> set (check_base_group m alg g))"
    by (auto simp: check_sequencing_def)
  also have "\<dots> \<longleftrightarrow> (\<exists>g \<in> set (base_groups apps). \<exists>d. Nonprod_production_gap_too_small alg b d \<in> set (check_base_group m alg g))"
    by (simp only: check_base_group_iff)
  also have "\<dots> \<longleftrightarrow> (\<exists>d. Nonprod_production_gap_too_small alg b d \<in> set (check_sequencing apps m alg))"
    by (auto simp: check_sequencing_def)
  finally show ?thesis .
qed

lemma validate_waves_sequencing_issues:
  assumes "validate_waves apps deps w alg = Inr (issues, stats)"
  shows "Nonprod_not_before_prod alg b x y \<in> set issues \<longleftrightarrow>
           Nonprod_not_before_prod alg b x y \<in> set (check_sequencing apps (wave_index_map w) alg)"
    and "Nonprod_production_gap_too_small alg b d \<in> set issues \<longleftrightarrow>
           Nonprod_production_gap_too_small alg b d \<in> set (check_sequencing apps (wave_index_map w) alg)"
proof -
  from assms obtain di ei where di: "check_deps apps deps (wave_index_map w) alg = Inr di"
    and ei: "check_edge_waves apps w alg = Inr ei"
    and iss: "issues = check_wave_counts w alg @ check_wave_sizes w alg @ check_exclusivity w alg @
                check_sequencing apps (wave_index_map w) alg @ di @ ei"
    by (auto simp: validate_waves_def Let_def split: sum.splits)
  show "Nonprod_not_before_prod alg b x y \<in> set issues \<longleftrightarrow>
           Nonprod_not_before_prod alg b x y \<in> set (check_sequencing apps (wave_index_map w) alg)"
    using check_deps_no_sequencing(1)[OF di] check_edge_waves_no_sequencing(1)[OF ei]
    by (simp add: iss static_checks_no_sequencing)
  show "Nonprod_production_gap_too_small alg b d \<in> set issues \<longleftrightarrow>
           Nonprod_production_gap_too_small alg b d \<in> set (check_sequencing apps (wave_index_map w) alg)"
    using check_deps_no_sequencing(2)[OF di] check_edge_waves_no_sequencing(2)[OF ei]
    by (simp add: iss static_checks_no_sequencing)
qed

lemma demo_validate:
  "validate_waves demo_apps [] demo_waves ''louvain'' = Inr
  ([Wave_count_mismatch ''louvain'' Nonprod 8 2,
    Wave_count_mismatch ''louvain'' Prod 8 2,
    Wave_size_out_of_bounds ''louvain'' Nonprod 0 2,
    Wave_size_out_of_bounds ''louvain'' Nonprod 1 1,
    Wave_size_out_of_bounds ''louvain'' Prod 0 1,
    Wave_size_out_of_bounds ''louvain'' Prod 1 1,
    Nonprod_not_before_prod ''louvain'' ''A'' 0 0,
    Nonprod_production_gap_too_small ''louvain'' ''A'' 0,
    Mission_critical_edge_wave ''louvain'' Nonprod 0 ''B-nonprod'',
    Mission_critical_edge_wave ''louvain'' Prod 1 ''B-prod''],
   [(''louvain'', Nonprod, 0, 2), (''louvain'', Nonprod, 1, 1),
    (''louvain'', Prod, 0, 1), (''louvain'', Prod, 1, 1)])"
  by code_simp

text \<open>
  C10. In one run of \<open>validate_waves\<close> a \<open>nonprod_not_before_prod\<close> issue is emitted for a
  base application exactly when a \<open>nonprod_production_gap_too_small\<close> issue is emitted for
  it: over integer wave indices \<open>p_idx \<le> np_idx\<close> and \<open>p_idx - np_idx < 1\<close> are the same
  condition.
\<close>

theorem validate_waves_not_before_iff_gap_too_small:
  assumes "validate_waves apps deps w alg = Inr (issues, stats)"
  shows "(\<exists>np_idx p_idx. Nonprod_not_before_prod alg b np_idx p_idx \<in> set issues) \<longleftrightarrow>
         (\<exists>gap. Nonprod_production_gap_too_small alg b gap \<in> set issues)"
  using check_sequencing_iff[of alg b apps "wave_index_map w"]
  by (simp only: validate_waves_sequencing_issues[OF assms])

theorem validate_waves_not_before_iff_gap_too_small_witness:
  "\<exists>issues stats. validate_waves demo_apps [] demo_waves ''louvain'' = Inr (issues, stats) \<and>
     Nonprod_not_before_prod ''louvain'' ''A'' 0 0 \<in> set issues \<and>
     (\<exists>gap. Nonprod_production_gap_too_small ''louvain'' ''A'' gap \<in> set issues) \<and>
     \<not> (\<exists>np_idx p_idx. Nonprod_not_before_prod ''louvain'' ''B'' np_idx p_idx \<in> set issues) \<and>
     \<not> (\<exists>gap. Nonprod_production_gap_too_small ''louvain'' ''B'' gap \<in> set issues)"
proof -
  obtain issues stats where v: "validate_waves demo_apps [] demo_waves ''louvain'' = Inr (issues, stats)"
    and iss: "issues = [Wave_count_mismatch ''louvain'' Nonprod 8 2,
    Wave_count_mismatch ''louvain'' Prod 8 2,
    Wave_size_out_of_bounds ''louvain'' Nonprod 0 2,
    Wave_size_out_of_bounds ''louvain'' Nonprod 1 1,
    Wave_size_out_of_bounds ''louvain'' Prod 0 1,
    Wave_size_out_of_bounds ''louvain'' Prod 1 1,
    Nonprod_not_before_prod ''louvain'' ''A'' 0 0,
    Nonprod_production_gap_too_small ''louvain'' ''A'' 0,
    Mission_critical_edge_wave ''louvain'' Nonprod 0 ''B-nonprod'',
    Mission_critical_edge_wave ''louvain'' Prod 1 ''B-prod'']"
    using demo_validate by blast
  have a: "Nonprod_not_before_prod ''louvain'' ''A'' 0 0 \<in> set issues"
    by (simp add: iss)
  have b: "\<not> (\<exists>np_idx p_idx. Nonprod_not_before_prod ''louvain'' ''B'' np_idx p_idx \<in> set issues)"
    by (simp add: iss)
  from a validate_waves_not_before_iff_gap_too_small[OF v, of "''A''"]
  have a': "\<exists>gap. Nonprod_production_gap_too_small ''louvain'' ''A'' gap \<in> set issues" by blast
  from b validate_waves_not_before_iff_gap_too_small[OF v, of "''B''"]
  have b': "\<not> (\<exists>gap. Nonprod_production_gap_too_small ''louvain'' ''B'' gap \<in> set issues)" by blast
  from v a a' b b' show ?thesis by blast
qed

section \<open>The Validator leaves the wave assignment as it is\<close>

lemma then_stmt_waves:
  assumes "\<And>s. st_waves (snd (c s)) = st_waves s"
    and "\<And>s. st_waves (snd (d s)) = st_waves s"
  shows "st_waves (snd (then_stmt c d s)) = st_waves s"
proof (cases "c s")
  case (Pair r s')
  with assms(1)[of s] have w: "st_waves s' = st_waves s" by simp
  show ?thesis
  proof (cases r)
    case None
    with Pair have "then_stmt c d s = d s'" by (simp add: then_stmt_def)
    with assms(2)[of s'] w show ?thesis by simp
  next
    case (Some err)
    with Pair w show ?thesis by (simp add: then_stmt_def)
  qed
qed

lemma for_in_waves:
  assumes "\<And>x s. st_waves (snd (body x s)) = st_waves s"
  shows "st_waves (snd (for_in xs body s)) = st_waves s"
proof (induction xs arbitrary: s)
  case Nil
  show ?case by simp
next
  case (Cons x xs)
  show ?case
  proof (cases "body x s")
    case (Pair r s')
    with assms[of x s] have w: "st_waves s' = st_waves s" by simp
    show ?thesis
    proof (cases r)
      case None
      with Pair have "for_in (x # xs) body s = for_in xs body s'" by simp
      with Cons.IH[of s'] w show ?thesis by simp
    next
      case (Some err)
      with Pair w show ?thesis by simp
    qed
  qed
qed

lemma pass_stmt_waves: "st_waves (snd (pass_stmt s)) = st_waves s"
  by (simp add: pass_stmt_def)

lemma raise_stmt_waves: "st_waves (snd (raise_stmt err s)) = st_waves s"
  by (simp add: raise_stmt_def)

lemma issues_append_waves: "st_waves (snd (issues_append x s)) = st_waves s"
  by (simp add: issues_append_def)

lemma stats_append_waves: "st_waves (snd (stats_append x s)) = st_waves s"
  by (simp add: stats_append_def)

lemma idxmap_clear_waves: "st_waves (snd (idxmap_clear s)) = st_waves s"
  by (simp add: idxmap_clear_def)

lemma idxmap_setitem_waves: "st_waves (snd (idxmap_setitem app v s)) = st_waves s"
  by (simp add: idxmap_setitem_def)

lemmas stmt_waves =
  pass_stmt_waves raise_stmt_waves issues_append_waves stats_append_waves
  idxmap_clear_waves idxmap_setitem_waves

lemma wave_index_map_stmts_waves:
  "st_waves (snd (wave_index_map_stmts s)) = st_waves s"
  unfolding wave_index_map_stmts_def
  by (auto intro!: then_stmt_waves for_in_waves simp: stmt_waves split: prod.splits)

lemma wave_count_stmts_waves:
  "st_waves (snd (wave_count_stmts alg s)) = st_waves s"
  unfolding wave_count_stmts_def
  by (auto intro!: then_stmt_waves for_in_waves simp: stmt_waves split: prod.splits)

lemma wave_size_stmts_waves:
  "st_waves (snd (wave_size_stmts alg s)) = st_waves s"
  unfolding wave_size_stmts_def
  by (auto intro!: then_stmt_waves for_in_waves simp: stmt_waves split: prod.splits)

lemma exclusivity_stmts_waves:
  "st_waves (snd (exclusivity_stmts alg s)) = st_waves s"
  unfolding exclusivity_stmts_def
  by (auto intro!: then_stmt_waves for_in_waves simp: stmt_waves split: prod.splits)

lemma sequencing_stmts_waves:
  "st_waves (snd (sequencing_stmts apps alg s)) = st_waves s"
  unfolding sequencing_stmts_def Let_def
  by (auto intro!: then_stmt_waves for_in_waves simp: stmt_waves split: prod.splits)

lemma dependency_stmts_waves:
  "st_waves (snd (dependency_stmts apps deps alg s)) = st_waves s"
  unfolding dependency_stmts_def Let_def
  by (auto intro!: then_stmt_waves for_in_waves simp: stmt_waves
        split: prod.splits sum.splits option.splits)

lemma edge_wave_stmts_waves:
  "st_waves (snd (edge_wave_stmts apps alg s)) = st_waves s"
  unfolding edge_wave_stmts_def Let_def
  by (auto intro!: then_stmt_waves for_in_waves simp: stmt_waves
        split: prod.splits sum.splits option.splits)

lemma validate_waves_stmts_waves:
  "st_waves (snd (validate_waves_stmts apps deps alg s)) = st_waves s"
  unfolding validate_waves_stmts_def
  by (intro then_stmt_waves wave_index_map_stmts_waves wave_count_stmts_waves
        wave_size_stmts_waves exclusivity_stmts_waves sequencing_stmts_waves
        dependency_stmts_waves edge_wave_stmts_waves)

section \<open>The statements compute the Validator's result\<close>

lemma for_in_emit:
  assumes "\<And>x s. body x s =
             (None, s\<lparr>st_issues := st_issues s @ f (st_waves s) (st_idxmap s) x,
                       st_stats := st_stats s @ g (st_waves s) (st_idxmap s) x\<rparr>)"
  shows "for_in xs body s =
           (None, s\<lparr>st_issues := st_issues s @ concat (map (f (st_waves s) (st_idxmap s)) xs),
                     st_stats := st_stats s @ concat (map (g (st_waves s) (st_idxmap s)) xs)\<rparr>)"
proof (induction xs arbitrary: s)
  case Nil
  show ?case by simp
next
  case (Cons x xs)
  define s' where "s' = s\<lparr>st_issues := st_issues s @ f (st_waves s) (st_idxmap s) x,
                          st_stats := st_stats s @ g (st_waves s) (st_idxmap s) x\<rparr>"
  have "body x s = (None, s')" unfolding s'_def by (rule assms)
  then have "for_in (x # xs) body s = for_in xs body s'" by simp
  with Cons.IH[of s'] show ?case by (simp add: s'_def)
qed

lemma for_in_issues:
  assumes "\<And>x s. body x s =
             (None, s\<lparr>st_issues := st_issues s @ f (st_waves s) (st_idxmap s) x\<rparr>)"
  shows "for_in xs body s =
           (None, s\<lparr>st_issues := st_issues s @ concat (map (f (st_waves s) (st_idxmap s)) xs)\<rparr>)"
  using for_in_emit[where body = body and f = f and g = "\<lambda>w m x. []" and xs = xs and s = s]
  by (simp add: assms)

lemma for_in_idxmap:
  assumes "\<And>x s. body x s = (None, s\<lparr>st_idxmap := g (st_waves s) x (st_idxmap s)\<rparr>)"
  shows "for_in xs body s = (None, s\<lparr>st_idxmap := fold (g (st_waves s)) xs (st_idxmap s)\<rparr>)"
proof (induction xs arbitrary: s)
  case Nil
  show ?case by simp
next
  case (Cons x xs)
  define s' where "s' = s\<lparr>st_idxmap := g (st_waves s) x (st_idxmap s)\<rparr>"
  have "body x s = (None, s')" unfolding s'_def by (rule assms)
  then have "for_in (x # xs) body s = for_in xs body s'" by simp
  with Cons.IH[of s'] show ?case by (simp add: s'_def)
qed

lemma concat_result_Cons:
  "concat_result f (x # xs) =
     (case f x of Inl err \<Rightarrow> Inl err
      | Inr y \<Rightarrow> (case concat_result f xs of Inl err \<Rightarrow> Inl err | Inr ys \<Rightarrow> Inr (y @ ys)))"
  by (simp add: concat_result_def split: sum.splits)

lemma concat_result_Nil: "concat_result f [] = Inr []"
  by (simp add: concat_result_def)

lemma for_in_result:
  assumes "\<And>x s. case f (st_waves s) (st_idxmap s) x of
                    Inl err \<Rightarrow> fst (body x s) = Some err
                  | Inr ys \<Rightarrow> body x s = (None, s\<lparr>st_issues := st_issues s @ ys\<rparr>)"
  shows "case concat_result (f (st_waves s) (st_idxmap s)) xs of
           Inl err \<Rightarrow> fst (for_in xs body s) = Some err
         | Inr ys \<Rightarrow> for_in xs body s = (None, s\<lparr>st_issues := st_issues s @ ys\<rparr>)"
proof (induction xs arbitrary: s)
  case Nil
  show ?case by (simp add: concat_result_Nil)
next
  case (Cons x xs)
  show ?case
  proof (cases "f (st_waves s) (st_idxmap s) x")
    case (Inl err)
    with assms[of x s] have "fst (body x s) = Some err" by simp
    then have "fst (for_in (x # xs) body s) = Some err"
      by (cases "body x s") simp
    with Inl show ?thesis by (simp add: concat_result_Cons)
  next
    case (Inr y)
    define s' where "s' = s\<lparr>st_issues := st_issues s @ y\<rparr>"
    from Inr assms[of x s] have b: "body x s = (None, s')" by (simp add: s'_def)
    have w: "st_waves s' = st_waves s" "st_idxmap s' = st_idxmap s" by (simp_all add: s'_def)
    from b have step: "for_in (x # xs) body s = for_in xs body s'" by simp
    from Cons.IH[of s'] w
    have ih: "case concat_result (f (st_waves s) (st_idxmap s)) xs of
                Inl err \<Rightarrow> fst (for_in xs body s') = Some err
              | Inr ys \<Rightarrow> for_in xs body s' = (None, s'\<lparr>st_issues := st_issues s' @ ys\<rparr>)"
      by simp
    show ?thesis
    proof (cases "concat_result (f (st_waves s) (st_idxmap s)) xs")
      case (Inl err)
      with ih Inr step show ?thesis by (simp add: concat_result_Cons)
    next
      case (Inr ys)
      with ih \<open>f (st_waves s) (st_idxmap s) x = Inr y\<close> step show ?thesis
        by (simp add: concat_result_Cons s'_def)
    qed
  qed
qed


lemma wave_index_map_stmts_eq:
  "wave_index_map_stmts s = (None, s\<lparr>st_idxmap := wave_index_map (st_waves s)\<rparr>)"
proof -
  have inner: "for_in wv (\<lambda>app. idxmap_setitem app (e, i)) s =
                 (None, s\<lparr>st_idxmap := fold (\<lambda>app m. m(app \<mapsto> (e, i))) wv (st_idxmap s)\<rparr>)"
    for wv e i s
    by (rule for_in_idxmap[where g = "\<lambda>w app m. m(app \<mapsto> (e, i))"])
       (simp add: idxmap_setitem_def)
  have middle: "for_in iws (\<lambda>(i, wv). for_in wv (\<lambda>app. idxmap_setitem app (e, i))) s =
                  (None, s\<lparr>st_idxmap :=
                     fold (\<lambda>(i, wv) m. fold (\<lambda>app m. m(app \<mapsto> (e, i))) wv m) iws (st_idxmap s)\<rparr>)"
    for iws e s
    by (rule for_in_idxmap[where
          g = "\<lambda>w (i, wv) m. fold (\<lambda>app m. m(app \<mapsto> (e, i))) wv m"])
       (simp add: inner split: prod.splits)
  have outer: "for_in es (\<lambda>e s. for_in (enumerate 0 (st_waves s e))
                   (\<lambda>(i, wv). for_in wv (\<lambda>app. idxmap_setitem app (e, i))) s) s =
                 (None, s\<lparr>st_idxmap :=
                    fold (\<lambda>e m. fold (\<lambda>(i, wv) m. fold (\<lambda>app m. m(app \<mapsto> (e, i))) wv m)
                                   (enumerate 0 (st_waves s e)) m) es (st_idxmap s)\<rparr>)"
    for es s
    by (rule for_in_idxmap[where
          g = "\<lambda>w e m. fold (\<lambda>(i, wv) m. fold (\<lambda>app m. m(app \<mapsto> (e, i))) wv m)
                          (enumerate 0 (w e)) m"])
       (simp add: middle)
  show ?thesis
    by (simp add: wave_index_map_stmts_def then_stmt_def idxmap_clear_def outer
          wave_index_map_def)
qed

lemma wave_count_stmts_eq:
  "wave_count_stmts alg s =
     (None, s\<lparr>st_issues := st_issues s @ check_wave_counts (st_waves s) alg\<rparr>)"
  unfolding wave_count_stmts_def check_wave_counts_def
  by (rule for_in_issues[where
        f = "\<lambda>w m e. if length (w e) \<noteq> TARGET_WAVES_PER_ENV
                      then [Wave_count_mismatch alg e TARGET_WAVES_PER_ENV (length (w e))]
                      else []"])
     (simp add: issues_append_def pass_stmt_def)

lemma wave_size_stmts_eq:
  "wave_size_stmts alg s =
     (None, s\<lparr>st_issues := st_issues s @ check_wave_sizes (st_waves s) alg,
               st_stats := st_stats s @ wave_stats (st_waves s) alg\<rparr>)"
proof -
  have inner: "for_in iws (\<lambda>(i, wv).
                 then_stmt (stats_append (alg, e, i, length wv))
                   (if length wv < MIN_WAVE \<or> length wv > MAX_WAVE
                    then issues_append (Wave_size_out_of_bounds alg e i (length wv))
                    else pass_stmt)) s =
               (None, s\<lparr>st_issues := st_issues s @
                          concat (map (\<lambda>(i, wv).
                            if length wv < MIN_WAVE \<or> length wv > MAX_WAVE
                            then [Wave_size_out_of_bounds alg e i (length wv)] else []) iws),
                        st_stats := st_stats s @
                          concat (map (\<lambda>(i, wv). [(alg, e, i, length wv)]) iws)\<rparr>)"
    for iws e s
    by (rule for_in_emit[where
          f = "\<lambda>w m (i, wv). if length wv < MIN_WAVE \<or> length wv > MAX_WAVE
                              then [Wave_size_out_of_bounds alg e i (length wv)] else []" and
          g = "\<lambda>w m (i, wv). [(alg, e, i, length wv)]"])
       (simp add: then_stmt_def stats_append_def issues_append_def pass_stmt_def
          split: prod.splits)
  have single: "concat (map (\<lambda>(i, wv). [(alg, e, i, length wv)]) iws) =
                  map (\<lambda>(i, wv). (alg, e, i, length wv)) iws" for e and iws :: "(nat \<times> string list) list"
    by (induction iws) (simp_all split: prod.splits)
  show ?thesis
    unfolding wave_size_stmts_def check_wave_sizes_def wave_stats_def
    by (rule for_in_emit[where
          f = "\<lambda>w m e. concat (map (\<lambda>(i, wv).
                  if length wv < MIN_WAVE \<or> length wv > MAX_WAVE
                  then [Wave_size_out_of_bounds alg e i (length wv)] else [])
                  (enumerate 0 (w e)))" and
          g = "\<lambda>w m e. map (\<lambda>(i, wv). (alg, e, i, length wv)) (enumerate 0 (w e))"])
       (simp add: inner single)
qed

lemma exclusivity_stmts_eq:
  "exclusivity_stmts alg s =
     (None, s\<lparr>st_issues := st_issues s @ check_exclusivity (st_waves s) alg\<rparr>)"
proof -
  have inner: "for_in wv (\<lambda>a. if \<not> endswith a (env_suffix e)
                               then issues_append (Env_exclusivity_violation alg e i a)
                               else pass_stmt) s =
               (None, s\<lparr>st_issues := st_issues s @
                          concat (map (\<lambda>a. if \<not> endswith a (env_suffix e)
                                            then [Env_exclusivity_violation alg e i a]
                                            else []) wv)\<rparr>)"
    for wv e i s
    by (rule for_in_issues[where
          f = "\<lambda>w m a. if \<not> endswith a (env_suffix e)
                        then [Env_exclusivity_violation alg e i a] else []"])
       (simp add: issues_append_def pass_stmt_def)
  have middle: "for_in iws (\<lambda>(i, wv). for_in wv (\<lambda>a. if \<not> endswith a (env_suffix e)
                               then issues_append (Env_exclusivity_violation alg e i a)
                               else pass_stmt)) s =
               (None, s\<lparr>st_issues := st_issues s @
                          concat (map (\<lambda>(i, wv).
                            concat (map (\<lambda>a. if \<not> endswith a (env_suffix e)
                                              then [Env_exclusivity_violation alg e i a]
                                              else []) wv)) iws)\<rparr>)"
    for iws e s
    by (rule for_in_issues[where
          f = "\<lambda>w m (i, wv). concat (map (\<lambda>a. if \<not> endswith a (env_suffix e)
                                              then [Env_exclusivity_violation alg e i a]
                                              else []) wv)"])
       (simp add: inner split: prod.splits)
  show ?thesis
    unfolding exclusivity_stmts_def check_exclusivity_def
    by (rule for_in_issues[where
          f = "\<lambda>w m e. concat (map (\<lambda>(i, wv).
                            concat (map (\<lambda>a. if \<not> endswith a (env_suffix e)
                                              then [Env_exclusivity_violation alg e i a]
                                              else []) wv)) (enumerate 0 (w e)))"])
       (simp add: middle)
qed

lemma sequencing_stmts_eq:
  "sequencing_stmts apps alg s =
     (None, s\<lparr>st_issues := st_issues s @ check_sequencing apps (st_idxmap s) alg\<rparr>)"
  unfolding sequencing_stmts_def check_sequencing_def
  by (rule for_in_issues[where f = "\<lambda>w m g. check_base_group m alg g"])
     (simp add: check_base_group_def Let_def then_stmt_def issues_append_def pass_stmt_def
        split: prod.splits)

lemma dependency_stmts_eq:
  "case check_deps apps deps (st_idxmap s) alg of
     Inl err \<Rightarrow> fst (dependency_stmts apps deps alg s) = Some err
   | Inr ys \<Rightarrow> dependency_stmts apps deps alg s = (None, s\<lparr>st_issues := st_issues s @ ys\<rparr>)"
  unfolding dependency_stmts_def check_deps_def
proof (rule for_in_result[where f = "\<lambda>w m r. check_dep apps m alg r"], goal_cases)
  case (1 r s)
  show ?case
  proof (cases "st_idxmap s (source r)")
    case None
    then show ?thesis
      by (simp add: check_dep_def pass_stmt_def Let_def split: sum.splits)
  next
    case src: (Some si)
    obtain s_env s_idx where si: "si = (s_env, s_idx)" by (cases si)
    show ?thesis
    proof (cases "st_idxmap s (target r)")
      case None
      with src si show ?thesis
        by (simp add: check_dep_def pass_stmt_def Let_def split: sum.splits)
    next
      case tgt: (Some ti)
      obtain t_env t_idx where ti: "ti = (t_env, t_idx)" by (cases ti)
      show ?thesis
      proof (cases "loc_BCP_score apps (source r)")
        case (Inl err)
        with src tgt si ti show ?thesis
          by (simp add: check_dep_def raise_stmt_def Let_def split: sum.splits)
      next
        case (Inr bcp)
        show ?thesis
        proof (cases bcp)
          case (Scalar v)
          with Inr src tgt si ti show ?thesis
            by (auto simp: check_dep_def then_stmt_def issues_append_def pass_stmt_def Let_def
                  split: sum.splits)
        next
          case (Series vs)
          with Inr src tgt si ti show ?thesis
            by (auto simp: check_dep_def then_stmt_def issues_append_def raise_stmt_def Let_def
                  split: sum.splits)
        qed
      qed
    qed
  qed
qed


lemma concat_result_append:
  "concat_result f (xs @ ys) =
     (case concat_result f xs of Inl err \<Rightarrow> Inl err
      | Inr a \<Rightarrow> (case concat_result f ys of Inl err \<Rightarrow> Inl err | Inr b \<Rightarrow> Inr (a @ b)))"
  by (induction xs) (simp_all add: concat_result_Nil concat_result_Cons split: sum.splits)

lemma concat_result_map:
  "concat_result f (map g xs) = concat_result (\<lambda>x. f (g x)) xs"
  by (induction xs) (simp_all add: concat_result_Nil concat_result_Cons split: sum.splits)

lemma concat_result_nested:
  "concat_result (\<lambda>(i, wv). concat_result (\<lambda>a. f (i, a)) wv) iws =
     concat_result f (concat (map (\<lambda>(i, wv). map (\<lambda>a. (i, a)) wv) iws))"
  by (induction iws)
     (simp_all add: concat_result_Nil concat_result_Cons concat_result_append concat_result_map
        split: sum.splits prod.splits)

lemma edge_wave_stmts_eq:
  "case check_edge_waves apps (st_waves s) alg of
     Inl err \<Rightarrow> fst (edge_wave_stmts apps alg s) = Some err
   | Inr ys \<Rightarrow> edge_wave_stmts apps alg s = (None, s\<lparr>st_issues := st_issues s @ ys\<rparr>)"
proof -
  have inner:
    "case concat_result (\<lambda>a. check_edge_app apps alg e n (i, a)) wv of
       Inl err \<Rightarrow> fst (for_in wv (\<lambda>a.
              case loc_BCP_score apps a of
                Inl err \<Rightarrow> raise_stmt err
              | Inr bcp \<Rightarrow>
                  (case cell_ge bcp 9 of
                     Inl err \<Rightarrow> raise_stmt err
                   | Inr ge9 \<Rightarrow>
                       if ge9 \<and> (i = 0 \<or> int i = int n - 1)
                       then issues_append (Mission_critical_edge_wave alg e i a)
                       else pass_stmt)) s) = Some err
     | Inr ys \<Rightarrow> for_in wv (\<lambda>a.
              case loc_BCP_score apps a of
                Inl err \<Rightarrow> raise_stmt err
              | Inr bcp \<Rightarrow>
                  (case cell_ge bcp 9 of
                     Inl err \<Rightarrow> raise_stmt err
                   | Inr ge9 \<Rightarrow>
                       if ge9 \<and> (i = 0 \<or> int i = int n - 1)
                       then issues_append (Mission_critical_edge_wave alg e i a)
                       else pass_stmt)) s = (None, s\<lparr>st_issues := st_issues s @ ys\<rparr>)"
    for wv e n i s
  proof (rule for_in_result[where f = "\<lambda>w m a. check_edge_app apps alg e n (i, a)"], goal_cases)
    case (1 a s)
    show ?case
    proof (cases "loc_BCP_score apps a")
      case (Inl err)
      then show ?thesis
        by (simp add: check_edge_app_def raise_stmt_def Let_def split: sum.splits)
    next
      case (Inr bcp)
      then show ?thesis
        by (cases bcp)
           (auto simp: check_edge_app_def raise_stmt_def issues_append_def pass_stmt_def Let_def
              split: sum.splits)
    qed
  qed
  have middle:
    "case concat_result (\<lambda>(i, wv). concat_result (\<lambda>a. check_edge_app apps alg e n (i, a)) wv) iws of
       Inl err \<Rightarrow> fst (for_in iws (\<lambda>(i, wv). for_in wv (\<lambda>a.
              case loc_BCP_score apps a of
                Inl err \<Rightarrow> raise_stmt err
              | Inr bcp \<Rightarrow>
                  (case cell_ge bcp 9 of
                     Inl err \<Rightarrow> raise_stmt err
                   | Inr ge9 \<Rightarrow>
                       if ge9 \<and> (i = 0 \<or> int i = int n - 1)
                       then issues_append (Mission_critical_edge_wave alg e i a)
                       else pass_stmt))) s) = Some err
     | Inr ys \<Rightarrow> for_in iws (\<lambda>(i, wv). for_in wv (\<lambda>a.
              case loc_BCP_score apps a of
                Inl err \<Rightarrow> raise_stmt err
              | Inr bcp \<Rightarrow>
                  (case cell_ge bcp 9 of
                     Inl err \<Rightarrow> raise_stmt err
                   | Inr ge9 \<Rightarrow>
                       if ge9 \<and> (i = 0 \<or> int i = int n - 1)
                       then issues_append (Mission_critical_edge_wave alg e i a)
                       else pass_stmt))) s = (None, s\<lparr>st_issues := st_issues s @ ys\<rparr>)"
    for iws e n s
  proof (rule for_in_result[where
           f = "\<lambda>w m (i, wv). concat_result (\<lambda>a. check_edge_app apps alg e n (i, a)) wv"],
         goal_cases)
    case (1 iw s)
    obtain i wv where iw: "iw = (i, wv)" by (cases iw)
    show ?case unfolding iw prod.case by (rule inner)
  qed
  show ?thesis
    unfolding edge_wave_stmts_def check_edge_waves_def indexed_members_def
  proof (rule for_in_result[where
           f = "\<lambda>w m e. concat_result (check_edge_app apps alg e (length (w e)))
                          (concat (map (\<lambda>(i, wv). map (\<lambda>a. (i, a)) wv) (enumerate 0 (w e))))"],
         goal_cases)
    case (1 e s)
    from middle[where e = e and n = "length (st_waves s e)" and iws = "enumerate 0 (st_waves s e)" and s = s]
    show ?case unfolding Let_def concat_result_nested[symmetric] .
  qed
qed

lemma validate_waves_run_result:
  "fst (validate_waves_run apps deps alg w) = validate_waves apps deps w alg"
proof -
  define s0 where "s0 = \<lparr>st_waves = w, st_idxmap = Map.empty, st_issues = [], st_stats = []\<rparr>"
  define m where "m = wave_index_map w"
  define s4 where
    "s4 = \<lparr>st_waves = w, st_idxmap = m,
           st_issues = check_wave_counts w alg @ check_wave_sizes w alg @
                       check_exclusivity w alg @ check_sequencing apps m alg,
           st_stats = wave_stats w alg\<rparr>"
  have s4: "st_waves s4 = w" "st_idxmap s4 = m" by (simp_all add: s4_def)
  have run: "validate_waves_stmts apps deps alg s0 =
               then_stmt (dependency_stmts apps deps alg) (edge_wave_stmts apps alg) s4"
    by (simp add: validate_waves_stmts_def then_stmt_def wave_index_map_stmts_eq
          wave_count_stmts_eq wave_size_stmts_eq exclusivity_stmts_eq sequencing_stmts_eq
          s0_def s4_def m_def)
  show ?thesis
  proof (cases "check_deps apps deps m alg")
    case (Inl err)
    with dependency_stmts_eq[where apps = apps and deps = deps and alg = alg and s = s4] s4
    have "fst (dependency_stmts apps deps alg s4) = Some err" by simp
    then have "fst (then_stmt (dependency_stmts apps deps alg) (edge_wave_stmts apps alg) s4) = Some err"
      by (cases "dependency_stmts apps deps alg s4") (simp add: then_stmt_def)
    with run have "fst (validate_waves_stmts apps deps alg s0) = Some err" by simp
    then have "fst (validate_waves_run apps deps alg w) = Inl err"
      unfolding validate_waves_run_def s0_def[symmetric]
      by (cases "validate_waves_stmts apps deps alg s0") simp
    with Inl show ?thesis by (simp add: validate_waves_def m_def)
  next
    case (Inr dep_issues)
    define s5 where "s5 = s4\<lparr>st_issues := st_issues s4 @ dep_issues\<rparr>"
    have s5: "st_waves s5 = w" by (simp add: s5_def s4_def)
    from Inr dependency_stmts_eq[where apps = apps and deps = deps and alg = alg and s = s4] s4
    have "dependency_stmts apps deps alg s4 = (None, s5)" by (simp add: s5_def)
    with run have run': "validate_waves_stmts apps deps alg s0 = edge_wave_stmts apps alg s5"
      by (simp add: then_stmt_def)
    show ?thesis
    proof (cases "check_edge_waves apps w alg")
      case (Inl err)
      with edge_wave_stmts_eq[where apps = apps and alg = alg and s = s5] s5
      have "fst (edge_wave_stmts apps alg s5) = Some err" by simp
      with run' have "fst (validate_waves_stmts apps deps alg s0) = Some err" by simp
      then have "fst (validate_waves_run apps deps alg w) = Inl err"
        unfolding validate_waves_run_def s0_def[symmetric]
        by (cases "validate_waves_stmts apps deps alg s0") simp
      with Inl \<open>check_deps apps deps m alg = Inr dep_issues\<close> show ?thesis
        by (simp add: validate_waves_def m_def)
    next
      case (Inr edge_issues)
      with edge_wave_stmts_eq[where apps = apps and alg = alg and s = s5] s5
      have "edge_wave_stmts apps alg s5 = (None, s5\<lparr>st_issues := st_issues s5 @ edge_issues\<rparr>)"
        by simp
      with run' have "validate_waves_stmts apps deps alg s0 =
                        (None, s5\<lparr>st_issues := st_issues s5 @ edge_issues\<rparr>)" by simp
      then have "fst (validate_waves_run apps deps alg w) =
                   Inr (st_issues s5 @ edge_issues, st_stats s5)"
        unfolding validate_waves_run_def s0_def[symmetric] by simp
      with Inr \<open>check_deps apps deps m alg = Inr dep_issues\<close> show ?thesis
        by (simp add: validate_waves_def m_def s5_def s4_def)
    qed
  qed
qed

text \<open>
  C6. The Validator only inspects. A call leaves the caller's wave assignment as it was,
  whether it returns or raises: every statement of the body writes one of the locals
  only. So a second call, on the assignment the first one left, starts from the same
  variables and gives the same issues and the same statistics (or the same exception),
  and it leaves the assignment as it was, too. What a call returns is the value of
  \<open>validate_waves\<close> on the assignment.
\<close>

theorem validate_waves_run_inspects_only:
  "snd (validate_waves_run apps deps alg w) = w \<and>
   fst (validate_waves_run apps deps alg (snd (validate_waves_run apps deps alg w))) =
     fst (validate_waves_run apps deps alg w) \<and>
   snd (validate_waves_run apps deps alg (snd (validate_waves_run apps deps alg w))) = w \<and>
   fst (validate_waves_run apps deps alg w) = validate_waves apps deps w alg"
proof -
  have unchanged: "snd (validate_waves_run apps deps alg v) = v" for v
  proof -
    define s0 where "s0 = \<lparr>st_waves = v, st_idxmap = Map.empty, st_issues = [], st_stats = []\<rparr>"
    have "st_waves (snd (validate_waves_stmts apps deps alg s0)) = st_waves s0"
      by (rule validate_waves_stmts_waves)
    then show ?thesis
      unfolding validate_waves_run_def s0_def[symmetric]
      by (cases "validate_waves_stmts apps deps alg s0")
         (auto simp: s0_def split: option.splits)
  qed
  have first: "snd (validate_waves_run apps deps alg w) = w"
    by (rule unchanged)
  have second: "validate_waves_run apps deps alg (snd (validate_waves_run apps deps alg w)) =
                  validate_waves_run apps deps alg w"
    by (simp only: first)
  have returned: "fst (validate_waves_run apps deps alg w) = validate_waves apps deps w alg"
    by (rule validate_waves_run_result)
  from first second returned show ?thesis by simp
qed

section \<open>The sequencing rule\<close>

text \<open>
  C4. The sequencing rule is to move only the prod instances of a base application one wave
  after nonprod's earliest wave. In the scenario of one base application with both
  instances in wave 0, the rule as coded also appends the nonprod instance to wave 1 of the
  prod environment: \<open>endswith('prod')\<close> selects the ids ending in \<open>nonprod\<close> too. After the
  rule the index map sends both instances to wave 1 of prod.
\<close>

theorem sequencing_rule_puts_nonprod_into_prod_wave:
  "(case for_each (sequencing_rule (wave_index_map seq_waves) 8) (base_groups seq_apps)
           (seq_waves, False) of
      Inl err \<Rightarrow> False
    | Inr s \<Rightarrow>
        fst s Nonprod = [[''A-nonprod''], [], [], [], [], [], [], []] \<and>
        fst s Prod = [[], [''A-nonprod'', ''A-prod''], [], [], [], [], [], []] \<and>
        snd s \<and>
        wave_index_map (fst s) ''A-nonprod'' = Some (Prod, 1) \<and>
        wave_index_map (fst s) ''A-prod'' = Some (Prod, 1))"
  by code_simp

section \<open>Dependency edges outside the index map\<close>

text \<open>
  C7. A dependency row whose source or target is not a key of the index map yields no
  issue in the Validator's dependency checks and leaves the wave assignment and the
  \<open>changed\<close> flag untouched in the Repair Engine's dependency rules; neither raises.
\<close>

theorem dependency_outside_idxmap_skipped:
  assumes "m (source r) = None \<or> m (target r) = None"
  shows "check_dep apps m alg r = Inr [] \<and> dependency_rule apps m target_waves r s = Inr s"
  using assms
  by (auto simp: check_dep_def dependency_rule_def Let_def split: option.splits)

theorem dependency_outside_idxmap_skipped_witness:
  "wave_index_map demo_waves ''SRV-P001'' = None \<and>
   check_dep demo_apps (wave_index_map demo_waves) ''louvain''
     \<lparr>source = ''B-prod'', target = ''SRV-P001'', source_type = ''application'', weight = 8\<rparr> = Inr [] \<and>
   dependency_rule demo_apps (wave_index_map demo_waves) 2
     \<lparr>source = ''B-prod'', target = ''SRV-P001'', source_type = ''application'', weight = 8\<rparr>
     (demo_waves, False) = Inr (demo_waves, False)"
proof -
  have n: "wave_index_map demo_waves ''SRV-P001'' = None" by code_simp
  then have "wave_index_map demo_waves (source \<lparr>source = ''B-prod'', target = ''SRV-P001'', source_type = ''application'', weight = 8\<rparr>) = None
      \<or> wave_index_map demo_waves (target \<lparr>source = ''B-prod'', target = ''SRV-P001'', source_type = ''application'', weight = 8\<rparr>) = None"
    by simp
  from dependency_outside_idxmap_skipped[OF this] n show ?thesis by blast
qed

section \<open>The mission-critical placement rule\<close>

lemma loc_BCP_score_cases:
  assumes "distinct (map app_instance_id apps)"
  shows "(a \<notin> app_instance_id ` set apps \<and> loc_BCP_score apps a = Inl KeyError) \<or>
         (\<exists>r \<in> set apps. app_instance_id r = a \<and> loc_BCP_score apps a = Inr (Scalar (BCP_score r)))"
proof (cases "a \<in> app_instance_id ` set apps")
  case True
  from filter_unique_row[OF assms True] obtain r
    where r: "filter (\<lambda>r. app_instance_id r = a) apps = [r]" "r \<in> set apps" by blast
  then have "r \<in> set (filter (\<lambda>r. app_instance_id r = a) apps)" by simp
  then have "app_instance_id r = a" by simp
  with r show ?thesis by (auto simp: loc_BCP_score_def)
next
  case False
  then have "filter (\<lambda>r. app_instance_id r = a) apps = []"
    by (auto simp: filter_empty_conv)
  with False show ?thesis by (simp add: loc_BCP_score_def)
qed

lemma mission_critical_lookup:
  assumes "distinct (map app_instance_id apps)"
  shows "mission_critical apps a \<longleftrightarrow> (\<exists>v. loc_BCP_score apps a = Inr (Scalar v) \<and> 9 \<le> v)"
proof
  assume "mission_critical apps a"
  then obtain r where r: "r \<in> set apps" "app_instance_id r = a" "9 \<le> BCP_score r"
    by (auto simp: mission_critical_def)
  from BCP_of_row[OF assms r(1)] r(2) have b: "BCP_of apps a = BCP_score r" by simp
  from loc_BCP_score_cases[OF assms, of a] r obtain r' where
    "r' \<in> set apps" "app_instance_id r' = a" "loc_BCP_score apps a = Inr (Scalar (BCP_score r'))"
    by auto
  moreover from this b have "BCP_score r' = BCP_score r" by (simp add: BCP_of_def)
  ultimately show "\<exists>v. loc_BCP_score apps a = Inr (Scalar v) \<and> 9 \<le> v" using r(3) by simp
next
  assume "\<exists>v. loc_BCP_score apps a = Inr (Scalar v) \<and> 9 \<le> v"
  with loc_BCP_score_cases[OF assms, of a] show "mission_critical apps a"
    by (auto simp: mission_critical_def)
qed

lemma place_critical_skip:
  assumes "distinct (map app_instance_id apps)"
    and "\<not> (mission_critical apps a \<and> (i = 0 \<or> int i = int N - 1))"
  shows "place_critical apps e N middle i a s = s"
proof -
  from loc_BCP_score_cases[OF assms(1), of a]
  consider "loc_BCP_score apps a = Inl KeyError" | v where "loc_BCP_score apps a = Inr (Scalar v)"
    by blast
  then show ?thesis
  proof cases
    case 1
    then show ?thesis by (simp add: place_critical_def)
  next
    case 2
    then have "mission_critical apps a \<longleftrightarrow> 9 \<le> v"
      by (simp add: mission_critical_lookup[OF assms(1)])
    with 2 assms(2) show ?thesis by (auto simp: place_critical_def)
  qed
qed

lemma place_critical_move:
  assumes "distinct (map app_instance_id apps)"
    and "mission_critical apps a" and "i = 0 \<or> int i = int N - 1"
    and "get_wave w e i = Inr wave_i" and "a \<in> set wave_i"
    and "get_wave (set_wave w e i (remove1 a wave_i)) e middle = Inr wave_m"
  shows "place_critical apps e N middle i a (w, ch) =
           (set_wave (set_wave w e i (remove1 a wave_i)) e middle (wave_m @ [a]), True)"
proof -
  from assms(2) obtain v where "loc_BCP_score apps a = Inr (Scalar v)" "9 \<le> v"
    by (auto simp: mission_critical_lookup[OF assms(1)])
  then show ?thesis
    using assms(3-6) by (simp add: place_critical_def Let_def)
qed

lemma middle_wave_bounds:
  assumes "2 < N"
  shows "0 < middle_wave N" and "middle_wave N < N - 1"
proof -
  define q where "q = N div 4"
  define h where "h = (3 * N + 3) div 4"
  have a: "12 \<le> 3 * N + 3" using assms by simp
  have "12 div 4 \<le> (3 * N + 3) div 4" using a by (rule div_le_mono)
  then have c: "3 \<le> h" by (simp add: h_def)
  have d: "4 * q \<le> N" by (simp add: q_def)
  have e: "4 * h \<le> 3 * N + 3" by (simp add: h_def)
  have m: "middle_wave N = (q + (h - 1)) div 2"
    by (simp add: middle_wave_def Let_def q_def h_def)
  have "2 \<le> q + (h - 1)" using c by linarith
  then have "2 div 2 \<le> (q + (h - 1)) div 2" by (rule div_le_mono)
  then show "0 < middle_wave N" by (simp add: m)
  have "q + (h - 1) < 2 * (N - 1)" using c d e assms by linarith
  then show "middle_wave N < N - 1" by (simp add: m)
qed

lemma middle_wave_8: "middle_wave 8 = 3"
  by (simp add: middle_wave_def Let_def)

lemma list_update_twice_pair:
  assumes "i \<noteq> m"
  shows "xs[i := a, m := b, i := c, m := d] = xs[i := c, m := d]"
proof (rule nth_equalityI)
  show "length (xs[i := a, m := b, i := c, m := d]) = length (xs[i := c, m := d])" by simp
next
  fix k assume "k < length (xs[i := a, m := b, i := c, m := d])"
  then have k: "k < length xs" by simp
  show "xs[i := a, m := b, i := c, m := d] ! k = xs[i := c, m := d] ! k"
    using k assms by (cases "k = m"; cases "k = i") simp_all
qed

lemma place_critical_fold:
  assumes "distinct (map app_instance_id apps)"
    and "i = 0 \<or> int i = int N - 1"
    and "i < length (w e)" and "m < length (w e)" and "m \<noteq> i"
    and "w e ! i = keep @ ys" and "\<forall>a \<in> set keep. \<not> mission_critical apps a"
  shows "fold (place_critical apps e N m i) ys (w, ch) =
           (w(e := (w e)[i := keep @ filter (\<lambda>a. \<not> mission_critical apps a) ys,
                          m := w e ! m @ filter (mission_critical apps) ys]),
            ch \<or> (\<exists>a \<in> set ys. mission_critical apps a))"
  using assms(3-7)
proof (induction ys arbitrary: w ch keep)
  case Nil
  then have "(w e)[i := keep, m := w e ! m] = w e"
    by (metis append_Nil2 list_update_id)
  then show ?case by simp
next
  case (Cons a ys)
  show ?case
  proof (cases "mission_critical apps a")
    case True
    let ?w1 = "set_wave w e i (keep @ ys)"
    let ?w2 = "set_wave ?w1 e m (w e ! m @ [a])"
    have notin: "a \<notin> set keep" using True Cons.prems(5) by blast
    have g: "get_wave w e i = Inr (keep @ a # ys)"
      using Cons.prems(1,4) by (simp add: get_wave_def)
    have r: "remove1 a (keep @ a # ys) = keep @ ys"
      using notin by (simp add: remove1_append)
    have g2: "get_wave ?w1 e m = Inr (w e ! m)"
      using Cons.prems(2,3) by (simp add: get_wave_def set_wave_def)
    have step: "place_critical apps e N m i a (w, ch) = (?w2, True)"
      using place_critical_move[OF assms(1) True assms(2) g, of m "w e ! m" ch] g2 r
      by simp
    have w2e: "?w2 e = (w e)[i := keep @ ys, m := w e ! m @ [a]]"
      by (simp add: set_wave_def)
    have p1: "i < length (?w2 e)" and p2: "m < length (?w2 e)"
      using Cons.prems(1,2) by (simp_all add: w2e)
    have p4: "?w2 e ! i = keep @ ys"
      using Cons.prems(1,2,3) by (simp add: w2e)
    have p6: "?w2 e ! m = w e ! m @ [a]"
      using Cons.prems(2) by (simp add: w2e)
    have "fold (place_critical apps e N m i) (a # ys) (w, ch) =
            fold (place_critical apps e N m i) ys (?w2, True)"
      by (simp add: step)
    also have "\<dots> = (?w2(e := (?w2 e)[i := keep @ filter (\<lambda>a. \<not> mission_critical apps a) ys,
                          m := ?w2 e ! m @ filter (mission_critical apps) ys]),
            True \<or> (\<exists>a \<in> set ys. mission_critical apps a))"
      by (rule Cons.IH[of ?w2 keep True, OF p1 p2 Cons.prems(3) p4 Cons.prems(5)])
    also have "\<dots> = (w(e := (w e)[i := keep @ filter (\<lambda>a. \<not> mission_critical apps a) (a # ys),
                          m := w e ! m @ filter (mission_critical apps) (a # ys)]),
            ch \<or> (\<exists>a \<in> set (a # ys). mission_critical apps a))"
      using True Cons.prems(2,3)
      by (simp add: set_wave_def list_update_twice_pair[of i m])
    finally show ?thesis .
  next
    case False
    have step: "place_critical apps e N m i a (w, ch) = (w, ch)"
      using place_critical_skip[OF assms(1), of a i N e m "(w, ch)"] False by simp
    have k: "w e ! i = (keep @ [a]) @ ys" using Cons.prems(4) by simp
    have k2: "\<forall>x \<in> set (keep @ [a]). \<not> mission_critical apps x"
      using False Cons.prems(5) by simp
    have "fold (place_critical apps e N m i) (a # ys) (w, ch) =
            fold (place_critical apps e N m i) ys (w, ch)"
      by (simp add: step)
    also have "\<dots> = (w(e := (w e)[i := (keep @ [a]) @ filter (\<lambda>a. \<not> mission_critical apps a) ys,
                          m := w e ! m @ filter (mission_critical apps) ys]),
            ch \<or> (\<exists>a \<in> set ys. mission_critical apps a))"
      by (rule Cons.IH[of w "keep @ [a]" ch, OF Cons.prems(1) Cons.prems(2) Cons.prems(3) k k2])
    also have "\<dots> = (w(e := (w e)[i := keep @ filter (\<lambda>a. \<not> mission_critical apps a) (a # ys),
                          m := w e ! m @ filter (mission_critical apps) (a # ys)]),
            ch \<or> (\<exists>a \<in> set (a # ys). mission_critical apps a))"
      using False by simp
    finally show ?thesis .
  qed
qed

lemma place_critical_fold_skip:
  assumes "distinct (map app_instance_id apps)" and "\<not> (i = 0 \<or> int i = int N - 1)"
  shows "fold (place_critical apps e N m i) ys s = s"
  by (induction ys) (simp_all add: place_critical_skip[OF assms(1)] assms(2))

lemma floor_quarter: "nat \<lfloor>0.25 * real N\<rfloor> = N div 4"
proof -
  have "0.25 * real N = real N / real 4" by simp
  then have "\<lfloor>0.25 * real N\<rfloor> = \<lfloor>real N / real 4\<rfloor>" by simp
  also have "\<dots> = int (N div 4)" by (rule floor_divide_of_nat_eq)
  finally show ?thesis by simp
qed

lemma ceiling_three_quarters: "nat \<lceil>0.75 * real N\<rceil> = (3 * N + 3) div 4"
proof -
  define k where "k = (3 * N + 3) div 4"
  define r where "r = (3 * N + 3) mod 4"
  have r: "r < 4" by (simp add: r_def)
  have "3 * N + 3 = 4 * k + r" by (simp add: k_def r_def)
  then have "real (3 * N + 3) = real (4 * k + r)" by simp
  then have e: "3 * real N + 3 = 4 * real k + real r" by simp
  have "real r < 4" using r by simp
  then have "real k - 1 < 0.75 * real N" "0.75 * real N \<le> real k"
    using e by simp_all
  then have "\<lceil>0.75 * real N\<rceil> = int k"
    by (intro ceiling_unique) simp_all
  then show ?thesis by (simp add: k_def)
qed

lemma middle_wave_float:
  "middle_wave N = (nat \<lfloor>0.25 * real N\<rfloor> + (nat \<lceil>0.75 * real N\<rceil> - 1)) div 2"
  by (simp only: floor_quarter ceiling_three_quarters middle_wave_def Let_def)

lemma for_each_append:
  "for_each f (xs @ ys) s = (case for_each f xs s of Inl err \<Rightarrow> Inl err | Inr s' \<Rightarrow> for_each f ys s')"
  by (induction xs arbitrary: s) (auto split: sum.splits)

lemma placement_skip_indices:
  assumes "distinct (map app_instance_id apps)"
    and "\<forall>j \<in> set js. j < length (fst s e) \<and> \<not> (j = 0 \<or> int j = int N - 1)"
  shows "for_each (\<lambda>i s. case get_wave (fst s) e i of
                            Inl err \<Rightarrow> Inl err
                          | Inr snapshot \<Rightarrow> Inr (fold (place_critical apps e N m i) snapshot s))
           js s = Inr s"
  using assms(2)
  by (induction js) (simp_all add: get_wave_def place_critical_fold_skip[OF assms(1)])

lemma placement_edge_step:
  assumes "distinct (map app_instance_id apps)"
    and "i = 0 \<or> int i = int N - 1"
    and "i < length (w e)" and "m < length (w e)" and "m \<noteq> i"
  shows "(case get_wave (fst (w, ch)) e i of
            Inl err \<Rightarrow> Inl err
          | Inr snapshot \<Rightarrow> Inr (fold (place_critical apps e N m i) snapshot (w, ch))) =
         Inr (w(e := (w e)[i := filter (\<lambda>a. \<not> mission_critical apps a) (w e ! i),
                           m := w e ! m @ filter (mission_critical apps) (w e ! i)]),
              ch \<or> (\<exists>a \<in> set (w e ! i). mission_critical apps a))"
proof -
  have k: "w e ! i = [] @ (w e ! i)" by simp
  have n: "\<forall>a \<in> set []. \<not> mission_critical apps a" by simp
  from place_critical_fold[where keep = "[]" and ys = "w e ! i" and ch = ch and w = w
        and e = e and i = i and m = m and N = N and apps = apps,
        OF assms(1) assms(2) assms(3) assms(4) assms(5) k n] assms(3)
  show ?thesis by (simp add: get_wave_def)
qed

lemma placement_rule_result:
  assumes "distinct (map app_instance_id apps)" and "2 < length (w e)"
  defines "N \<equiv> length (w e)"
  defines "m \<equiv> middle_wave (length (w e))"
  defines "crit \<equiv> mission_critical apps"
  shows "placement_rule apps e (w, ch) =
           Inr (w(e := (w e)[0 := filter (\<lambda>a. \<not> crit a) (w e ! 0),
                             m := w e ! m @ filter crit (w e ! 0),
                             N - 1 := filter (\<lambda>a. \<not> crit a) (w e ! (N - 1)),
                             m := (w e ! m @ filter crit (w e ! 0)) @ filter crit (w e ! (N - 1))]),
                (ch \<or> (\<exists>a \<in> set (w e ! 0). crit a)) \<or> (\<exists>a \<in> set (w e ! (N - 1)). crit a))"
proof -
  let ?step = "\<lambda>i s. case get_wave (fst s) e i of
                            Inl err \<Rightarrow> Inl err
                          | Inr snapshot \<Rightarrow> Inr (fold (place_critical apps e N m i) snapshot s)"
  have N2: "2 < N" using assms(2) by (simp add: N_def)
  have m0: "0 < m" and mN: "m < N - 1"
    using middle_wave_bounds[OF assms(2)] by (simp_all add: m_def N_def)
  have upt: "[0..<N] = 0 # [1..<N - 1] @ [N - 1]"
  proof -
    have "[0..<N] = [0..<N - 1] @ [N - 1]"
      using N2 by (metis Suc_diff_1 gr_implies_not0 neq0_conv upt_Suc_append zero_le)
    moreover have "[0..<N - 1] = 0 # [1..<N - 1]"
      using N2 by (simp add: upt_conv_Cons)
    ultimately show ?thesis by simp
  qed
  let ?w1 = "w(e := (w e)[0 := filter (\<lambda>a. \<not> crit a) (w e ! 0),
                           m := w e ! m @ filter crit (w e ! 0)])"
  let ?c1 = "ch \<or> (\<exists>a \<in> set (w e ! 0). crit a)"
  have e0: "(0::nat) = 0 \<or> int 0 = int N - 1" by simp
  have l0: "0 < length (w e)" and lm: "m < length (w e)" and mneq: "m \<noteq> 0"
    using N2 m0 mN by (auto simp: N_def)
  have s1: "?step 0 (w, ch) = Inr (?w1, ?c1)"
    unfolding crit_def
    by (rule placement_edge_step[where w = w and e = e and i = 0 and m = m and N = N
          and apps = apps and ch = ch, OF assms(1) e0 l0 lm mneq])
  have len1: "length (?w1 e) = N" by (simp add: N_def)
  have s2: "for_each ?step [1..<N - 1] (?w1, ?c1) = Inr (?w1, ?c1)"
  proof (rule placement_skip_indices[OF assms(1)])
    show "\<forall>j \<in> set [1..<N - 1]. j < length (fst (?w1, ?c1) e) \<and> \<not> (j = 0 \<or> int j = int N - 1)"
      using len1 by auto
  qed
  have last1: "?w1 e ! (N - 1) = w e ! (N - 1)"
    using N2 m0 mN by (simp add: N_def)
  have mid1: "?w1 e ! m = w e ! m @ filter crit (w e ! 0)"
    using mN by (simp add: N_def)
  have edge: "N - 1 = 0 \<or> int (N - 1) = int N - 1" using N2 by simp
  have s3: "?step (N - 1) (?w1, ?c1) =
      Inr (?w1(e := (?w1 e)[N - 1 := filter (\<lambda>a. \<not> crit a) (?w1 e ! (N - 1)),
                           m := ?w1 e ! m @ filter crit (?w1 e ! (N - 1))]),
           ?c1 \<or> (\<exists>a \<in> set (?w1 e ! (N - 1)). crit a))"
  proof -
    have a: "N - 1 < length (?w1 e)" using N2 len1 by simp
    have b: "m < length (?w1 e)" using mN len1 by simp
    have c: "m \<noteq> N - 1" using mN by simp
    show ?thesis
      unfolding crit_def
      by (rule placement_edge_step[where w = "?w1" and e = e and i = "N - 1" and m = m and N = N
          and apps = apps and ch = "?c1", unfolded crit_def, OF assms(1) edge a[unfolded crit_def] b[unfolded crit_def] c])
  qed
  have "placement_rule apps e (w, ch) = for_each ?step [0..<N] (w, ch)"
    using assms(2) unfolding placement_rule_def Let_def N_def m_def fst_conv by simp
  also have "\<dots> = for_each ?step (0 # ([1..<N - 1] @ [N - 1])) (w, ch)"
    by (simp only: upt)
  also have "\<dots> = for_each ?step ([1..<N - 1] @ [N - 1]) (?w1, ?c1)"
    by (simp only: for_each.simps s1 sum.case)
  also have "\<dots> = for_each ?step [N - 1] (?w1, ?c1)"
    by (simp only: for_each_append s2 sum.case)
  also have "\<dots> = Inr (?w1(e := (?w1 e)[N - 1 := filter (\<lambda>a. \<not> crit a) (?w1 e ! (N - 1)),
                           m := ?w1 e ! m @ filter crit (?w1 e ! (N - 1))]),
           ?c1 \<or> (\<exists>a \<in> set (?w1 e ! (N - 1)). crit a))"
    by (simp only: for_each.simps s3 sum.case)
  finally show ?thesis
    by (simp only: last1 mid1) simp
qed

text \<open>
  C5. For an environment with more than two waves, the placement rule removes every
  application with BCP score at least 9 from the first and from the last wave and appends
  it to the middle wave, whose index is \<open>(floor(0.25 N) + ceil(0.75 N) - 1) div 2\<close> and lies
  strictly between the first and the last; all other members and waves stay as they are.
  For eight waves the middle index is 3. After the rule no such application is in the
  first or the last wave.
\<close>

theorem placement_rule_relocates_mission_critical:
  assumes "distinct (map app_instance_id apps)" and "2 < length (w e)"
  shows "\<exists>w' changed'. placement_rule apps e (w, changed) = Inr (w', changed') \<and>
      (let N = length (w e); middle = middle_wave N
       in middle = (nat \<lfloor>0.25 * real N\<rfloor> + nat \<lceil>0.75 * real N\<rceil> - 1) div 2 \<and>
          0 < middle \<and> middle < N - 1 \<and>
          length (w' e) = N \<and>
          w' e ! 0 = filter (\<lambda>a. \<not> mission_critical apps a) (w e ! 0) \<and>
          w' e ! (N - 1) = filter (\<lambda>a. \<not> mission_critical apps a) (w e ! (N - 1)) \<and>
          w' e ! middle = w e ! middle @ filter (mission_critical apps) (w e ! 0) @
                            filter (mission_critical apps) (w e ! (N - 1)) \<and>
          (\<forall>i < N. i \<noteq> 0 \<and> i \<noteq> N - 1 \<and> i \<noteq> middle \<longrightarrow> w' e ! i = w e ! i) \<and>
          (\<forall>e'. e' \<noteq> e \<longrightarrow> w' e' = w e') \<and>
          (\<forall>a. mission_critical apps a \<longrightarrow> a \<notin> set (w' e ! 0) \<and> a \<notin> set (w' e ! (N - 1)))) \<and>
      middle_wave 8 = 3"
proof -
  define N where "N = length (w e)"
  define m where "m = middle_wave (length (w e))"
  define crit where "crit = mission_critical apps"
  define ws where "ws = (w e)[0 := filter (\<lambda>a. \<not> crit a) (w e ! 0),
                             m := w e ! m @ filter crit (w e ! 0),
                             N - 1 := filter (\<lambda>a. \<not> crit a) (w e ! (N - 1)),
                             m := (w e ! m @ filter crit (w e ! 0)) @ filter crit (w e ! (N - 1))]"
  define c' where "c' \<longleftrightarrow> (changed \<or> (\<exists>a \<in> set (w e ! 0). crit a)) \<or> (\<exists>a \<in> set (w e ! (N - 1)). crit a)"
  have res: "placement_rule apps e (w, changed) = Inr (w(e := ws), c')"
    using placement_rule_result[where w = w and e = e and apps = apps and ch = changed, OF assms]
    by (simp only: N_def m_def crit_def ws_def c'_def)
  have N2: "2 < N" using assms(2) by (simp add: N_def)
  have m0: "0 < m" and mN: "m < N - 1"
    using middle_wave_bounds[where N = "length (w e)", OF assms(2)] by (simp_all add: m_def N_def)
  have len: "length ws = N" by (simp add: ws_def N_def)
  have ceil3: "3 \<le> nat \<lceil>0.75 * real N\<rceil>"
  proof -
    have "12 \<le> 3 * N + 3" using N2 by simp
    then have "12 div 4 \<le> (3 * N + 3) div 4" by (rule div_le_mono)
    then have "3 \<le> (3 * N + 3) div 4" by simp
    then show ?thesis by (simp only: ceiling_three_quarters)
  qed
  have formula: "m = (nat \<lfloor>0.25 * real N\<rfloor> + nat \<lceil>0.75 * real N\<rceil> - 1) div 2"
  proof -
    have "nat \<lfloor>0.25 * real N\<rfloor> + nat \<lceil>0.75 * real N\<rceil> - 1 =
          nat \<lfloor>0.25 * real N\<rfloor> + (nat \<lceil>0.75 * real N\<rceil> - 1)"
      using ceil3 by linarith
    then show ?thesis by (simp only: m_def N_def[symmetric] middle_wave_float)
  qed
  have l0: "0 < length (w e)" and lm: "m < length (w e)" and ll: "N - 1 < length (w e)"
    and ne: "m \<noteq> 0" "m \<noteq> N - 1" "N - 1 \<noteq> 0"
    using N2 m0 mN by (auto simp: N_def)
  have w0: "ws ! 0 = filter (\<lambda>a. \<not> crit a) (w e ! 0)"
    using l0 lm ll ne by (simp add: ws_def)
  have wl: "ws ! (N - 1) = filter (\<lambda>a. \<not> crit a) (w e ! (N - 1))"
    using l0 lm ll ne by (simp add: ws_def)
  have wm: "ws ! m = w e ! m @ filter crit (w e ! 0) @ filter crit (w e ! (N - 1))"
    using l0 lm ll ne by (simp add: ws_def)
  have wo: "\<forall>i < N. i \<noteq> 0 \<and> i \<noteq> N - 1 \<and> i \<noteq> m \<longrightarrow> ws ! i = w e ! i"
    by (simp add: ws_def)
  have oe: "\<forall>e'. e' \<noteq> e \<longrightarrow> (w(e := ws)) e' = w e'" by simp
  have gone: "\<forall>a. crit a \<longrightarrow> a \<notin> set (ws ! 0) \<and> a \<notin> set (ws ! (N - 1))"
    using w0 wl by simp
  have props: "(let N = length (w e); middle = middle_wave N
       in middle = (nat \<lfloor>0.25 * real N\<rfloor> + nat \<lceil>0.75 * real N\<rceil> - 1) div 2 \<and>
          0 < middle \<and> middle < N - 1 \<and>
          length ((w(e := ws)) e) = N \<and>
          (w(e := ws)) e ! 0 = filter (\<lambda>a. \<not> mission_critical apps a) (w e ! 0) \<and>
          (w(e := ws)) e ! (N - 1) = filter (\<lambda>a. \<not> mission_critical apps a) (w e ! (N - 1)) \<and>
          (w(e := ws)) e ! middle = w e ! middle @ filter (mission_critical apps) (w e ! 0) @
                            filter (mission_critical apps) (w e ! (N - 1)) \<and>
          (\<forall>i < N. i \<noteq> 0 \<and> i \<noteq> N - 1 \<and> i \<noteq> middle \<longrightarrow> (w(e := ws)) e ! i = w e ! i) \<and>
          (\<forall>e'. e' \<noteq> e \<longrightarrow> (w(e := ws)) e' = w e') \<and>
          (\<forall>a. mission_critical apps a \<longrightarrow> a \<notin> set ((w(e := ws)) e ! 0) \<and> a \<notin> set ((w(e := ws)) e ! (N - 1))))"
    unfolding Let_def fun_upd_same
  proof (intro conjI)
    show "middle_wave (length (w e)) =
      (nat \<lfloor>0.25 * real (length (w e))\<rfloor> + nat \<lceil>0.75 * real (length (w e))\<rceil> - 1) div 2"
      by (rule formula[unfolded m_def N_def])
    show "0 < middle_wave (length (w e))" by (rule m0[unfolded m_def])
    show "middle_wave (length (w e)) < length (w e) - 1" by (rule mN[unfolded m_def N_def])
    show "length ws = length (w e)" by (rule len[unfolded N_def])
    show "ws ! 0 = filter (\<lambda>a. \<not> mission_critical apps a) (w e ! 0)"
      by (rule w0[unfolded crit_def])
    show "ws ! (length (w e) - 1) = filter (\<lambda>a. \<not> mission_critical apps a) (w e ! (length (w e) - 1))"
      by (rule wl[unfolded crit_def N_def])
    show "ws ! middle_wave (length (w e)) = w e ! middle_wave (length (w e)) @
            filter (mission_critical apps) (w e ! 0) @
            filter (mission_critical apps) (w e ! (length (w e) - 1))"
      by (rule wm[unfolded crit_def N_def m_def])
    show "\<forall>i<length (w e). i \<noteq> 0 \<and> i \<noteq> length (w e) - 1 \<and> i \<noteq> middle_wave (length (w e)) \<longrightarrow>
            ws ! i = w e ! i"
      by (rule wo[unfolded N_def m_def])
    show "\<forall>e'. e' \<noteq> e \<longrightarrow> (w(e := ws)) e' = w e'" by simp
    show "\<forall>a. mission_critical apps a \<longrightarrow>
            a \<notin> set (ws ! 0) \<and> a \<notin> set (ws ! (length (w e) - 1))"
      by (rule gone[unfolded crit_def N_def])
  qed
  show ?thesis
    by (intro exI[of _ "w(e := ws)"] exI[of _ c'] conjI res props middle_wave_8)
qed

lemma crit_apps_distinct: "distinct (map app_instance_id crit_apps)"
  by (simp add: crit_apps_def)

lemma crit_apps_critical:
  "mission_critical crit_apps ''A-nonprod''" "\<not> mission_critical crit_apps ''B-nonprod''"
  "mission_critical crit_apps ''C-nonprod''" "\<not> mission_critical crit_apps ''D-nonprod''"
  by (simp_all add: mission_critical_def crit_apps_def)

lemma crit_waves_nonprod:
  "crit_waves Nonprod =
     [[''A-nonprod'', ''B-nonprod''], [], [], [''D-nonprod''], [], [], [], [''C-nonprod'']]"
  by (simp add: crit_waves_def)

theorem placement_rule_relocates_mission_critical_witness:
  "distinct (map app_instance_id crit_apps) \<and> 2 < length (crit_waves Nonprod) \<and>
   (\<exists>w' changed'. placement_rule crit_apps Nonprod (crit_waves, False) = Inr (w', changed') \<and>
      w' Nonprod ! 0 = [''B-nonprod''] \<and>
      w' Nonprod ! 3 = [''D-nonprod'', ''A-nonprod'', ''C-nonprod''] \<and>
      w' Nonprod ! 7 = [])"
proof -
  have len: "length (crit_waves Nonprod) = 8" by (simp add: crit_waves_nonprod)
  then have l2: "2 < length (crit_waves Nonprod)" by simp
  from placement_rule_relocates_mission_critical[where w = crit_waves and e = Nonprod
         and apps = crit_apps and changed = False, OF crit_apps_distinct l2]
  obtain w' changed' where r: "placement_rule crit_apps Nonprod (crit_waves, False) = Inr (w', changed')"
    and p0: "w' Nonprod ! 0 = filter (\<lambda>a. \<not> mission_critical crit_apps a) (crit_waves Nonprod ! 0)"
    and p7: "w' Nonprod ! (8 - 1) = filter (\<lambda>a. \<not> mission_critical crit_apps a) (crit_waves Nonprod ! (8 - 1))"
    and p3: "w' Nonprod ! middle_wave 8 = crit_waves Nonprod ! middle_wave 8 @
               filter (mission_critical crit_apps) (crit_waves Nonprod ! 0) @
               filter (mission_critical crit_apps) (crit_waves Nonprod ! (8 - 1))"
    and m8: "middle_wave 8 = 3"
    unfolding Let_def len by blast
  have a: "w' Nonprod ! 0 = [''B-nonprod'']"
    using p0 by (simp add: crit_waves_nonprod crit_apps_critical)
  have b: "w' Nonprod ! 7 = []"
    using p7 by (simp add: crit_waves_nonprod crit_apps_critical)
  have c: "w' Nonprod ! 3 = [''D-nonprod'', ''A-nonprod'', ''C-nonprod'']"
    using p3 unfolding m8 by (simp add: crit_waves_nonprod crit_apps_critical)
  show ?thesis
    by (intro conjI exI[of _ w'] exI[of _ changed'] crit_apps_distinct l2 r a b c)
qed

section \<open>The index map of a well-formed assignment\<close>

lemma set_envs: "set envs = UNIV"
proof -
  have "e \<in> set envs" for e by (cases e) (simp_all add: envs_def)
  then show ?thesis by blast
qed

lemma standard_structure_iff:
  "standard_structure apps tw w \<longleftrightarrow>
     (\<forall>e. length (w e) = tw \<and> (\<forall>wv \<in> set (w e). set wv \<subseteq> app_instance_id ` set apps))"
  by (auto simp: standard_structure_def set_envs)

lemma index_fold_members:
  assumes "fold (\<lambda>app m. m(app \<mapsto> (e, i))) wv m a = Some v"
  shows "m a = Some v \<or> (v = (e, i) \<and> a \<in> set wv)"
  using assms
  by (induction wv arbitrary: m) (fastforce split: if_splits)+

lemma index_fold_waves:
  assumes "fold (\<lambda>(i, wv) m. fold (\<lambda>app m. m(app \<mapsto> (e, i))) wv m) (enumerate k ws) m a = Some v"
  shows "m a = Some v \<or> (\<exists>j < length ws. v = (e, k + j) \<and> a \<in> set (ws ! j))"
  using assms
proof (induction ws arbitrary: m k)
  case Nil
  then show ?case by simp
next
  case (Cons wv ws)
  let ?m1 = "fold (\<lambda>app m. m(app \<mapsto> (e, k))) wv m"
  from Cons.prems have
    "fold (\<lambda>(i, wv) m. fold (\<lambda>app m. m(app \<mapsto> (e, i))) wv m) (enumerate (Suc k) ws) ?m1 a = Some v"
    by (simp del: fun_upd_apply)
  from Cons.IH[OF this]
  consider "?m1 a = Some v" | j where "j < length ws" "v = (e, Suc k + j)" "a \<in> set (ws ! j)"
    by blast
  then show ?case
  proof cases
    case 1
    from index_fold_members[OF 1] show ?thesis by force
  next
    case 2
    then have "Suc j < length (wv # ws)" "v = (e, k + Suc j)" "a \<in> set ((wv # ws) ! Suc j)"
      by simp_all
    then show ?thesis by blast
  qed
qed

lemma wave_index_map_members:
  assumes "wave_index_map w a = Some (e, i)"
  shows "i < length (w e) \<and> a \<in> set (w e ! i)"
proof -
  let ?f = "\<lambda>e m. fold (\<lambda>(i, wv) m. fold (\<lambda>app m. m(app \<mapsto> (e, i))) wv m) (enumerate 0 (w e)) m"
  let ?m1 = "?f Nonprod Map.empty"
  from assms have "?f Prod ?m1 a = Some (e, i)"
    by (simp add: wave_index_map_def envs_def del: fun_upd_apply)
  from index_fold_waves[OF this]
  consider "?m1 a = Some (e, i)" | "e = Prod \<and> i < length (w Prod) \<and> a \<in> set (w Prod ! i)"
    by auto
  then show ?thesis
  proof cases
    case 1
    from index_fold_waves[OF 1] show ?thesis by auto
  next
    case 2
    then show ?thesis by simp
  qed
qed

section \<open>The repair passes keep the standard structure and do not raise\<close>

lemma for_each_invariant:
  assumes "\<And>x s. x \<in> set xs \<Longrightarrow> P s \<Longrightarrow> \<exists>s'. f x s = Inr s' \<and> P s'"
    and "P s"
  shows "\<exists>s'. for_each f xs s = Inr s' \<and> P s'"
  using assms
proof (induction xs arbitrary: s)
  case Nil
  then show ?case by simp
next
  case (Cons x xs)
  from Cons.prems(1)[of x s] Cons.prems(2) obtain s1 where s1: "f x s = Inr s1" "P s1" by auto
  have "\<exists>s'. for_each f xs s1 = Inr s' \<and> P s'"
    by (rule Cons.IH) (use Cons.prems(1) s1(2) in auto)
  with s1(1) show ?case by simp
qed

lemma standard_structure_length:
  "standard_structure apps tw w \<Longrightarrow> length (w e) = tw"
  unfolding standard_structure_iff by blast

lemma standard_structure_member:
  "standard_structure apps tw w \<Longrightarrow> wv \<in> set (w e) \<Longrightarrow> a \<in> set wv \<Longrightarrow>
     a \<in> app_instance_id ` set apps"
  unfolding standard_structure_iff by blast

lemma standard_structureI:
  assumes "\<And>e. length (w e) = tw"
    and "\<And>e wv a. wv \<in> set (w e) \<Longrightarrow> a \<in> set wv \<Longrightarrow> a \<in> app_instance_id ` set apps"
  shows "standard_structure apps tw w"
  unfolding standard_structure_iff using assms by blast

lemma set_wave_standard:
  assumes "standard_structure apps tw w" and "set xs \<subseteq> app_instance_id ` set apps"
  shows "standard_structure apps tw (set_wave w e i xs)"
proof (rule standard_structureI)
  fix e'
  show "length (set_wave w e i xs e') = tw"
    using standard_structure_length[OF assms(1)] by (simp add: set_wave_def)
next
  fix e' wv a
  assume wv: "wv \<in> set (set_wave w e i xs e')" and a: "a \<in> set wv"
  have sub: "set ((w e)[i := xs]) \<subseteq> insert xs (set (w e))"
    by (rule set_update_subset_insert)
  from wv sub have "wv = xs \<or> wv \<in> set (w e')"
    by (cases "e' = e") (auto simp: set_wave_def)
  then show "a \<in> app_instance_id ` set apps"
    using a assms(2) standard_structure_member[OF assms(1)] by blast
qed

lemma get_wave_standard:
  assumes "standard_structure apps tw w" and "i < tw"
  shows "get_wave w e i = Inr (w e ! i)" and "set (w e ! i) \<subseteq> app_instance_id ` set apps"
proof -
  from assms have l: "i < length (w e)" by (simp add: standard_structure_length)
  then show "get_wave w e i = Inr (w e ! i)" by (simp add: get_wave_def)
  from l have "w e ! i \<in> set (w e)" by simp
  then show "set (w e ! i) \<subseteq> app_instance_id ` set apps"
    using standard_structure_member[OF assms(1)] by blast
qed

lemma relocate_standard:
  assumes "standard_structure apps tw (fst s)"
    and "\<And>e' i'. m p = Some (e', i') \<Longrightarrow> i' < tw \<and> p \<in> app_instance_id ` set apps"
    and "m p \<noteq> None \<Longrightarrow> target_idx < tw"
  shows "\<exists>s'. relocate m e target_idx p s = Inr s' \<and> standard_structure apps tw (fst s')"
proof (cases "m p")
  case None
  with assms(1) show ?thesis by (simp add: relocate_def)
next
  case (Some v)
  obtain old_env old_idx where v: "v = (old_env, old_idx)" by (cases v)
  from assms(2)[of old_env old_idx] Some v
  have old: "old_idx < tw" and p: "p \<in> app_instance_id ` set apps" by simp_all
  from assms(3) Some have tgt: "target_idx < tw" by simp
  show ?thesis
  proof (cases "old_idx = target_idx")
    case True
    with Some v assms(1) show ?thesis by (simp add: relocate_def)
  next
    case False
    let ?w = "fst s"
    let ?old = "?w e ! old_idx"
    let ?w1 = "if p \<in> set ?old then set_wave ?w e old_idx (remove1 p ?old) else ?w"
    have g1: "get_wave ?w e old_idx = Inr ?old"
      by (rule get_wave_standard(1)[OF assms(1) old])
    have "set (remove1 p ?old) \<subseteq> app_instance_id ` set apps"
      using get_wave_standard(2)[OF assms(1) old, of e] set_remove1_subset[of p ?old] by blast
    then have std1: "standard_structure apps tw ?w1"
      using assms(1) by (simp add: set_wave_standard)
    have g2: "get_wave ?w1 e target_idx = Inr (?w1 e ! target_idx)"
      by (rule get_wave_standard(1)[OF std1 tgt])
    have "set (?w1 e ! target_idx @ [p]) \<subseteq> app_instance_id ` set apps"
      using get_wave_standard(2)[OF std1 tgt, of e] p by simp
    then have std2: "standard_structure apps tw (set_wave ?w1 e target_idx (?w1 e ! target_idx @ [p]))"
      by (rule set_wave_standard[OF std1])
    have "relocate m e target_idx p s = Inr (set_wave ?w1 e target_idx (?w1 e ! target_idx @ [p]), True)"
      using Some v False g1 g2 by (simp add: relocate_def Let_def)
    with std2 show ?thesis by simp
  qed
qed

lemma wave_index_map_standard:
  assumes "standard_structure apps tw w" and "wave_index_map w a = Some (e, i)"
  shows "i < tw \<and> a \<in> app_instance_id ` set apps"
proof -
  from wave_index_map_members[OF assms(2)] have i: "i < length (w e)" and a: "a \<in> set (w e ! i)"
    by simp_all
  from i have "w e ! i \<in> set (w e)" by simp
  from standard_structure_member[OF assms(1) this a] i standard_structure_length[OF assms(1), of e]
  show ?thesis by simp
qed

lemma relocate_all_standard:
  assumes "standard_structure apps tw (fst s)"
    and "\<And>a e' i'. m a = Some (e', i') \<Longrightarrow> i' < tw \<and> a \<in> app_instance_id ` set apps"
    and "\<And>p. p \<in> set ps \<Longrightarrow> m p \<noteq> None \<Longrightarrow> target_idx < tw"
  shows "\<exists>s'. for_each (relocate m e target_idx) ps s = Inr s' \<and> standard_structure apps tw (fst s')"
proof (rule for_each_invariant[where P = "\<lambda>s. standard_structure apps tw (fst s)"])
  fix p and s0 :: "waves \<times> bool"
  assume p: "p \<in> set ps" and s0: "standard_structure apps tw (fst s0)"
  show "\<exists>s'. relocate m e target_idx p s0 = Inr s' \<and> standard_structure apps tw (fst s')"
    by (rule relocate_standard[OF s0]) (use assms(2) assms(3)[OF p] in auto)
next
  show "standard_structure apps tw (fst s)" by (rule assms(1))
qed

lemma min_idx_le:
  assumes "n \<in> set ns" and "m n = Some (e', i')"
  shows "min_list (map (idx_or_999 m) ns) \<le> i'"
proof -
  from assms(1) have ne: "map (idx_or_999 m) ns \<noteq> []" by auto
  have "idx_or_999 m n = i'" using assms(2) by (simp add: idx_or_999_def)
  then have "i' \<in> set (map (idx_or_999 m) ns)" using assms(1) by force
  then have "Min (set (map (idx_or_999 m) ns)) \<le> i'" by (intro Min_le) simp_all
  then show ?thesis by (simp only: min_list_Min[OF ne])
qed

lemma sequencing_rule_standard:
  assumes "standard_structure apps tw (fst s)"
    and im: "\<And>a e' i'. m a = Some (e', i') \<Longrightarrow> i' < tw \<and> a \<in> app_instance_id ` set apps"
  shows "\<exists>s'. sequencing_rule m tw g s = Inr s' \<and> standard_structure apps tw (fst s')"
proof -
  define nonprod where "nonprod = filter (\<lambda>i. endswith i ''nonprod'') (snd g)"
  define prod where "prod = filter (\<lambda>i. endswith i ''prod'') (snd g)"
  define np_idx where "np_idx = min_list (map (idx_or_999 m) nonprod)"
  define p_idx where "p_idx = min_list (map (idx_or_999 m) prod)"
  have unf: "sequencing_rule m tw g s =
     (if nonprod \<noteq> [] \<and> prod \<noteq> [] then
        (if p_idx \<le> np_idx then
           (if int np_idx < int tw - 1
            then for_each (relocate m Prod (np_idx + 1)) prod s
            else for_each (relocate m Nonprod (nat (max (int np_idx - 1) 0))) nonprod s)
         else Inr s)
      else Inr s)"
    by (simp add: sequencing_rule_def Let_def nonprod_def prod_def np_idx_def p_idx_def)
  have a: "\<exists>s'. for_each (relocate m Prod (np_idx + 1)) prod s = Inr s' \<and> standard_structure apps tw (fst s')"
    if "int np_idx < int tw - 1"
    by (rule relocate_all_standard[OF assms(1) im]) (use that in auto)
  have b: "\<exists>s'. for_each (relocate m Nonprod (nat (max (int np_idx - 1) 0))) nonprod s = Inr s' \<and>
             standard_structure apps tw (fst s')"
  proof (rule relocate_all_standard[OF assms(1) im])
    fix p assume p: "p \<in> set nonprod" and some: "m p \<noteq> None"
    then obtain e' i' where mp: "m p = Some (e', i')" by auto
    from min_idx_le[where m = m and n = p and ns = nonprod, OF p mp] have "np_idx \<le> i'" by (simp add: np_idx_def)
    moreover from im[OF mp] have "i' < tw" by simp
    ultimately show "nat (max (int np_idx - 1) 0) < tw" by simp
  qed
  show ?thesis
  proof (cases "nonprod \<noteq> [] \<and> prod \<noteq> [] \<and> p_idx \<le> np_idx")
    case False
    then have "sequencing_rule m tw g s = Inr s" unfolding unf by auto
    with assms(1) show ?thesis by simp
  next
    case True
    show ?thesis
    proof (cases "int np_idx < int tw - 1")
      case lt: True
      have "sequencing_rule m tw g s = for_each (relocate m Prod (np_idx + 1)) prod s"
        unfolding unf using True lt by simp
      with a[OF lt] show ?thesis by simp
    next
      case ge: False
      have "sequencing_rule m tw g s =
              for_each (relocate m Nonprod (nat (max (int np_idx - 1) 0))) nonprod s"
        unfolding unf using True ge by simp
      with b show ?thesis by simp
    qed
  qed
qed

lemma fix_order_rule_standard:
  assumes "standard_structure apps tw (fst s)"
    and im: "\<And>a e' i'. m a = Some (e', i') \<Longrightarrow> i' < tw \<and> a \<in> app_instance_id ` set apps"
  shows "\<exists>s'. fix_order_rule m tw g s = Inr s' \<and> standard_structure apps tw (fst s')"
proof -
  define nonprod where "nonprod = filter (\<lambda>i. endswith i ''nonprod'') (snd g)"
  define prod where "prod = filter (\<lambda>i. endswith i ''prod'') (snd g)"
  define np_idx where "np_idx = min_list (map (idx_or_999 m) nonprod)"
  define p_idx where "p_idx = min_list (map (idx_or_999 m) prod)"
  have unf: "fix_order_rule m tw g s =
     (if nonprod \<noteq> [] \<and> prod \<noteq> [] then
        (if p_idx \<le> np_idx then
           (if 0 < np_idx
            then for_each (relocate m Nonprod (nat (max (int np_idx - 1) 0))) nonprod s
            else if int p_idx < int tw - 1
            then for_each (relocate m Prod (nat (min (int p_idx + 1) (int tw - 1)))) prod s
            else Inr s)
         else Inr s)
      else Inr s)"
    by (simp add: fix_order_rule_def Let_def nonprod_def prod_def np_idx_def p_idx_def)
  have a: "\<exists>s'. for_each (relocate m Prod (nat (min (int p_idx + 1) (int tw - 1)))) prod s = Inr s' \<and>
             standard_structure apps tw (fst s')"
    if "int p_idx < int tw - 1"
    by (rule relocate_all_standard[OF assms(1) im]) (use that in auto)
  have b: "\<exists>s'. for_each (relocate m Nonprod (nat (max (int np_idx - 1) 0))) nonprod s = Inr s' \<and>
             standard_structure apps tw (fst s')"
  proof (rule relocate_all_standard[OF assms(1) im])
    fix p assume p: "p \<in> set nonprod" and some: "m p \<noteq> None"
    then obtain e' i' where mp: "m p = Some (e', i')" by auto
    from min_idx_le[where m = m and n = p and ns = nonprod, OF p mp] have "np_idx \<le> i'" by (simp add: np_idx_def)
    moreover from im[OF mp] have "i' < tw" by simp
    ultimately show "nat (max (int np_idx - 1) 0) < tw" by simp
  qed
  show ?thesis
  proof (cases "nonprod \<noteq> [] \<and> prod \<noteq> [] \<and> p_idx \<le> np_idx")
    case False
    then have "fix_order_rule m tw g s = Inr s" unfolding unf by auto
    with assms(1) show ?thesis by simp
  next
    case True
    show ?thesis
    proof (cases "0 < np_idx")
      case pos: True
      have "fix_order_rule m tw g s =
              for_each (relocate m Nonprod (nat (max (int np_idx - 1) 0))) nonprod s"
        unfolding unf using True pos by simp
      with b show ?thesis by simp
    next
      case zero: False
      show ?thesis
      proof (cases "int p_idx < int tw - 1")
        case lt: True
        have "fix_order_rule m tw g s =
                for_each (relocate m Prod (nat (min (int p_idx + 1) (int tw - 1)))) prod s"
          unfolding unf using True zero lt by simp
        with a[OF lt] show ?thesis by simp
      next
        case ge: False
        have "fix_order_rule m tw g s = Inr s"
          unfolding unf using True zero ge by simp
        with assms(1) show ?thesis by simp
      qed
    qed
  qed
qed

lemma get_wave_Inr_subset:
  assumes "standard_structure apps tw w" and "get_wave w e i = Inr xs"
  shows "set xs \<subseteq> app_instance_id ` set apps"
proof -
  from assms(2) have i: "i < length (w e)" and xs: "xs = w e ! i"
    by (auto simp: get_wave_def split: if_splits)
  from i have "w e ! i \<in> set (w e)" by simp
  with xs show ?thesis using standard_structure_member[OF assms(1)] by blast
qed

lemma remove_member_standard:
  assumes "standard_structure apps tw w" and "get_wave w e i = Inr xs"
  shows "standard_structure apps tw (if a \<in> set xs then set_wave w e i (remove1 a xs) else w)"
proof -
  have "set (remove1 a xs) \<subseteq> app_instance_id ` set apps"
    using get_wave_Inr_subset[OF assms] set_remove1_subset[of a xs] by blast
  with assms(1) show ?thesis by (simp add: set_wave_standard)
qed

lemma colocate_standard:
  assumes "standard_structure apps tw (fst s)" and "tgt \<in> app_instance_id ` set apps"
  shows "standard_structure apps tw (fst (colocate tgt tgt_env t_idx src_env s_idx s))"
proof (cases "get_wave (fst s) tgt_env t_idx")
  case (Inl err)
  with assms(1) show ?thesis by (simp add: colocate_def)
next
  case (Inr t_wave)
  let ?w1 = "if tgt \<in> set t_wave then set_wave (fst s) tgt_env t_idx (remove1 tgt t_wave) else fst s"
  have std1: "standard_structure apps tw ?w1"
    by (rule remove_member_standard[OF assms(1) Inr])
  show ?thesis
  proof (cases "get_wave ?w1 src_env s_idx")
    case Inl2: (Inl err)
    have "fst (colocate tgt tgt_env t_idx src_env s_idx s) = ?w1"
      using Inr Inl2 by (simp add: colocate_def Let_def)
    with std1 show ?thesis by simp
  next
    case Inr2: (Inr s_wave)
    have "set (s_wave @ [tgt]) \<subseteq> app_instance_id ` set apps"
      using get_wave_Inr_subset[OF std1 Inr2] assms(2) by simp
    then have std2: "standard_structure apps tw (set_wave ?w1 src_env s_idx (s_wave @ [tgt]))"
      by (rule set_wave_standard[OF std1])
    have "fst (colocate tgt tgt_env t_idx src_env s_idx s) =
            (if tgt \<notin> set s_wave then set_wave ?w1 src_env s_idx (s_wave @ [tgt]) else ?w1)"
      using Inr Inr2 by (simp add: colocate_def Let_def)
    with std1 std2 show ?thesis by simp
  qed
qed

lemma localize_standard:
  assumes "standard_structure apps tw (fst s)" and "tgt \<in> app_instance_id ` set apps"
    and "t_idx < tw" and "s_idx < tw"
  shows "\<exists>s'. localize tw tgt tgt_env t_idx src_env s_idx s = Inr s' \<and>
               standard_structure apps tw (fst s')"
proof -
  define t_wave where "t_wave = fst s tgt_env ! t_idx"
  define w1 where "w1 = (if tgt \<in> set t_wave
                         then set_wave (fst s) tgt_env t_idx (remove1 tgt t_wave) else fst s)"
  define w2 where "w2 = set_wave w1 src_env s_idx (w1 src_env ! s_idx @ [tgt])"
  have g: "get_wave (fst s) tgt_env t_idx = Inr t_wave"
    unfolding t_wave_def by (rule get_wave_standard(1)[OF assms(1,3)])
  have std1: "standard_structure apps tw w1"
    unfolding w1_def by (rule remove_member_standard[OF assms(1) g])
  have len: "length (w1 src_env) = tw"
    by (rule standard_structure_length[OF std1])
  have pref: "(if int tw \<le> int s_idx then int tw - 1 else int s_idx) = int s_idx"
    using assms(4) by simp
  have py: "py_index (length (w1 src_env)) (int s_idx) = Inr s_idx"
    using assms(4) by (simp add: py_index_def len)
  have "set (w1 src_env ! s_idx @ [tgt]) \<subseteq> app_instance_id ` set apps"
    using get_wave_standard(2)[OF std1 assms(4), of src_env] assms(2) by simp
  then have std2: "standard_structure apps tw w2"
    unfolding w2_def by (rule set_wave_standard[OF std1])
  have unf: "localize tw tgt tgt_env t_idx src_env s_idx s =
          (if tgt \<notin> set (w1 src_env ! s_idx) then Inr (w2, True) else Inr (w1, snd s))"
    unfolding localize_def Let_def pref g sum.case w1_def[symmetric] py w2_def[symmetric] by (rule refl)
  show ?thesis
  proof (cases "tgt \<notin> set (w1 src_env ! s_idx)")
    case True
    with unf have "localize tw tgt tgt_env t_idx src_env s_idx s = Inr (w2, True)" by simp
    with std2 show ?thesis by simp
  next
    case False
    with unf have "localize tw tgt tgt_env t_idx src_env s_idx s = Inr (w1, snd s)" by simp
    with std1 show ?thesis by simp
  qed
qed

lemma dependency_rule_standard:
  assumes "distinct (map app_instance_id apps)"
    and "standard_structure apps tw (fst s)"
    and im: "\<And>a e' i'. m a = Some (e', i') \<Longrightarrow> i' < tw \<and> a \<in> app_instance_id ` set apps"
  shows "\<exists>s'. dependency_rule apps m tw r s = Inr s' \<and> standard_structure apps tw (fst s')"
proof (cases "m (source r)")
  case None
  then have "dependency_rule apps m tw r s = Inr s"
    by (simp add: dependency_rule_def Let_def)
  with assms(2) show ?thesis by simp
next
  case (Some sv)
  obtain src_env s_idx where sv: "sv = (src_env, s_idx)" by (cases sv)
  show ?thesis
  proof (cases "m (target r)")
    case None
    then have "dependency_rule apps m tw r s = Inr s"
      using Some by (simp add: dependency_rule_def Let_def split: prod.splits)
    with assms(2) show ?thesis by simp
  next
    case Some2: (Some tv)
    obtain tgt_env t_idx where tv: "tv = (tgt_env, t_idx)" by (cases tv)
    from im[of "source r" src_env s_idx] Some sv
    have si: "s_idx < tw" and src: "source r \<in> app_instance_id ` set apps" by simp_all
    from im[of "target r" tgt_env t_idx] Some2 tv
    have ti: "t_idx < tw" and tgt: "target r \<in> app_instance_id ` set apps" by simp_all
    show ?thesis
    proof (cases "src_env = tgt_env")
      case False
      then have "dependency_rule apps m tw r s = Inr s"
        using Some sv Some2 tv by (simp add: dependency_rule_def Let_def)
      with assms(2) show ?thesis by simp
    next
      case True
      from loc_BCP_score_unique[OF assms(1) src] obtain v
        where v: "loc_BCP_score apps (source r) = Inr (Scalar v)" by blast
      define s1 where "s1 = (if 8 \<le> v \<and> s_idx \<noteq> t_idx
                 then colocate (target r) tgt_env t_idx src_env s_idx s else s)"
      have std1: "standard_structure apps tw (fst s1)"
        unfolding s1_def using colocate_standard[OF assms(2) tgt] assms(2) by simp
      define cond where
        "cond \<longleftrightarrow> 7 \<le> v \<and> 7 < weight r \<and> \<not> (t_idx = s_idx \<or> int t_idx = int s_idx - 1)"
      have unf: "dependency_rule apps m tw r s =
          (if cond then localize tw (target r) tgt_env t_idx src_env s_idx s1 else Inr s1)"
        using Some sv Some2 tv True v by (simp add: dependency_rule_def Let_def s1_def cond_def)
      show ?thesis
      proof (cases cond)
        case c: True
        have "dependency_rule apps m tw r s =
            localize tw (target r) tgt_env t_idx src_env s_idx s1"
          using unf c by simp
        with localize_standard[OF std1 tgt ti si, of tgt_env src_env] show ?thesis by simp
      next
        case c: False
        have "dependency_rule apps m tw r s = Inr s1"
          using unf c by simp
        with std1 show ?thesis by simp
      qed
    qed
  qed
qed

lemma placement_rule_standard:
  assumes "distinct (map app_instance_id apps)" and "standard_structure apps tw (fst s)"
  shows "\<exists>s'. placement_rule apps e s = Inr s' \<and> standard_structure apps tw (fst s')"
proof (cases "2 < length (fst s e)")
  case False
  then have "placement_rule apps e s = Inr s" by (simp add: placement_rule_def Let_def)
  with assms(2) show ?thesis by simp
next
  case True
  obtain w ch where s: "s = (w, ch)" by (cases s)
  from True s have N2: "2 < length (w e)" by simp
  from assms(2) s have std: "standard_structure apps tw w" by simp
  define N where "N = length (w e)"
  define m where "m = middle_wave (length (w e))"
  define A where "A = filter (\<lambda>a. \<not> mission_critical apps a) (w e ! 0)"
  define B where "B = w e ! m @ filter (mission_critical apps) (w e ! 0)"
  define C where "C = filter (\<lambda>a. \<not> mission_critical apps a) (w e ! (N - 1))"
  define D where "D = (w e ! m @ filter (mission_critical apps) (w e ! 0)) @
                        filter (mission_critical apps) (w e ! (N - 1))"
  define c' where "c' \<longleftrightarrow> (ch \<or> (\<exists>a \<in> set (w e ! 0). mission_critical apps a)) \<or>
                        (\<exists>a \<in> set (w e ! (N - 1)). mission_critical apps a)"
  have res: "placement_rule apps e (w, ch) = Inr (w(e := (w e)[0 := A, m := B, N - 1 := C, m := D]), c')"
    using placement_rule_result[where w = w and e = e and apps = apps and ch = ch, OF assms(1) N2]
    by (simp only: N_def m_def A_def B_def C_def D_def c'_def)
  have sub: "set (w e ! i) \<subseteq> app_instance_id ` set apps" if "i < length (w e)" for i
  proof -
    from that have "w e ! i \<in> set (w e)" by simp
    then show ?thesis using standard_structure_member[OF std] by blast
  qed
  have m: "m < length (w e)" and l: "N - 1 < length (w e)" and z: "0 < length (w e)"
    using middle_wave_bounds[where N = "length (w e)", OF N2] N2 by (auto simp: m_def N_def)
  have sA: "set A \<subseteq> app_instance_id ` set apps" using sub[OF z] by (auto simp: A_def)
  have sB: "set B \<subseteq> app_instance_id ` set apps" using sub[OF z] sub[OF m] by (auto simp: B_def)
  have sC: "set C \<subseteq> app_instance_id ` set apps" using sub[OF l] by (auto simp: C_def)
  have sD: "set D \<subseteq> app_instance_id ` set apps"
    using sub[OF z] sub[OF m] sub[OF l] by (auto simp: D_def)
  have eq: "w(e := (w e)[0 := A, m := B, N - 1 := C, m := D]) =
            set_wave (set_wave (set_wave (set_wave w e 0 A) e m B) e (N - 1) C) e m D"
    by (simp add: set_wave_def)
  have "standard_structure apps tw (set_wave (set_wave (set_wave (set_wave w e 0 A) e m B) e (N - 1) C) e m D)"
    by (intro set_wave_standard std sA sB sC sD)
  with res eq s show ?thesis by simp
qed

lemma merge_extras_exact:
  "length ws \<le> tw \<Longrightarrow> merge_extras tw ws = Inr ws"
  by (subst merge_extras.simps) simp

lemma integrity_rule_standard:
  assumes "standard_structure apps tw w"
  shows "integrity_rule tw e w = Inr w"
proof -
  have len: "length (w e) = tw" by (rule standard_structure_length[OF assms])
  have "merge_extras tw (w e @ replicate (tw - length (w e)) []) = Inr (w e)"
    using merge_extras_exact[of "w e" tw] len by simp
  then show ?thesis by (simp add: integrity_rule_def)
qed

lemma integrity_rules_standard:
  assumes "standard_structure apps tw w"
  shows "for_each (integrity_rule tw) envs w = Inr w"
  using integrity_rule_standard[OF assms] by (simp add: envs_def)

lemma repair_pass_standard:
  assumes "distinct (map app_instance_id apps)" and "standard_structure apps tw w"
  shows "\<exists>s'. repair_pass apps deps tw w = Inr s' \<and> standard_structure apps tw (fst s')"
proof -
  let ?m = "wave_index_map w"
  have im: "\<And>a e' i'. ?m a = Some (e', i') \<Longrightarrow> i' < tw \<and> a \<in> app_instance_id ` set apps"
    by (rule wave_index_map_standard[OF assms(2)])
  have "\<exists>s1. for_each (sequencing_rule ?m tw) (base_groups apps) (w, False) = Inr s1 \<and>
              standard_structure apps tw (fst s1)"
  proof (rule for_each_invariant[where P = "\<lambda>s. standard_structure apps tw (fst s)"])
    fix g and s :: "waves \<times> bool"
    assume "standard_structure apps tw (fst s)"
    then show "\<exists>s'. sequencing_rule ?m tw g s = Inr s' \<and> standard_structure apps tw (fst s')"
      by (rule sequencing_rule_standard) (rule im)
  qed (simp add: assms(2))
  then obtain s1 where s1: "for_each (sequencing_rule ?m tw) (base_groups apps) (w, False) = Inr s1"
    and std1: "standard_structure apps tw (fst s1)" by blast
  have "\<exists>s2. for_each (dependency_rule apps ?m tw) (app_deps deps) s1 = Inr s2 \<and>
              standard_structure apps tw (fst s2)"
  proof (rule for_each_invariant[where P = "\<lambda>s. standard_structure apps tw (fst s)"])
    fix r and s :: "waves \<times> bool"
    assume "standard_structure apps tw (fst s)"
    then show "\<exists>s'. dependency_rule apps ?m tw r s = Inr s' \<and> standard_structure apps tw (fst s')"
      by (rule dependency_rule_standard[OF assms(1)]) (rule im)
  qed (rule std1)
  then obtain s2 where s2: "for_each (dependency_rule apps ?m tw) (app_deps deps) s1 = Inr s2"
    and std2: "standard_structure apps tw (fst s2)" by blast
  have "\<exists>s3. for_each (placement_rule apps) envs s2 = Inr s3 \<and>
              standard_structure apps tw (fst s3)"
  proof (rule for_each_invariant[where P = "\<lambda>s. standard_structure apps tw (fst s)"])
    fix e and s :: "waves \<times> bool"
    assume "standard_structure apps tw (fst s)"
    then show "\<exists>s'. placement_rule apps e s = Inr s' \<and> standard_structure apps tw (fst s')"
      by (rule placement_rule_standard[OF assms(1)])
  qed (rule std2)
  then obtain s3 where s3: "for_each (placement_rule apps) envs s2 = Inr s3"
    and std3: "standard_structure apps tw (fst s3)" by blast
  have s4: "for_each (integrity_rule tw) envs (fst s3) = Inr (fst s3)"
    by (rule integrity_rules_standard[OF std3])
  have "repair_pass apps deps tw w = Inr (fst s3, snd s3)"
    by (simp add: repair_pass_def Let_def s1 s2 s3 s4)
  with std3 show ?thesis by simp
qed

lemma repair_loop_standard:
  assumes "distinct (map app_instance_id apps)" and "standard_structure apps tw w"
  shows "\<exists>w'. repair_loop apps deps tw changed iters w = Inr w' \<and> standard_structure apps tw w'"
  using assms
proof (induction apps deps tw changed iters w rule: repair_loop.induct)
  case (1 apps deps tw changed iters w)
  show ?case
  proof (cases "changed \<and> iters < 40")
    case False
    then have "repair_loop apps deps tw changed iters w = Inr w"
      by (subst repair_loop.simps) (auto simp del: repair_loop.simps)
    with "1.prems"(2) show ?thesis by simp
  next
    case True
    from repair_pass_standard[OF "1.prems"] obtain s
      where s: "repair_pass apps deps tw w = Inr s" and std: "standard_structure apps tw (fst s)"
      by blast
    from "1.IH"[OF True s "1.prems"(1) std] obtain w'
      where w': "repair_loop apps deps tw (snd s) (iters + 1) (fst s) = Inr w'"
        and std': "standard_structure apps tw w'" by blast
    have "repair_loop apps deps tw changed iters w = Inr w'"
      using w' by (subst repair_loop.simps) (simp add: True s del: repair_loop.simps)
    with std' show ?thesis by simp
  qed
qed

lemma fix_order_pass_standard:
  assumes "standard_structure apps tw w"
  shows "\<exists>s'. fix_order_pass apps tw w = Inr s' \<and> standard_structure apps tw (fst s')"
  unfolding fix_order_pass_def
proof (rule for_each_invariant[where P = "\<lambda>s. standard_structure apps tw (fst s)"])
  fix g and s :: "waves \<times> bool"
  assume "standard_structure apps tw (fst s)"
  then show "\<exists>s'. fix_order_rule (wave_index_map w) tw g s = Inr s' \<and>
                  standard_structure apps tw (fst s')"
    by (rule fix_order_rule_standard) (rule wave_index_map_standard[OF assms])
qed (simp add: assms)

lemma fix_order_loop_standard:
  assumes "standard_structure apps tw w"
  shows "\<exists>w'. fix_order_loop apps tw changed it w = Inr w' \<and> standard_structure apps tw w'"
  using assms
proof (induction apps tw changed it w rule: fix_order_loop.induct)
  case (1 apps tw changed it w)
  show ?case
  proof (cases "changed \<and> it < 40")
    case False
    then have "fix_order_loop apps tw changed it w = Inr w"
      by (subst fix_order_loop.simps) (auto simp del: fix_order_loop.simps)
    with "1.prems" show ?thesis by simp
  next
    case True
    from fix_order_pass_standard[OF "1.prems"] obtain s
      where s: "fix_order_pass apps tw w = Inr s" and std: "standard_structure apps tw (fst s)"
      by blast
    from "1.IH"[OF True s std] obtain w'
      where w': "fix_order_loop apps tw (snd s) (it + 1) (fst s) = Inr w'"
        and std': "standard_structure apps tw w'" by blast
    have "fix_order_loop apps tw changed it w = Inr w'"
      using w' by (subst fix_order_loop.simps) (simp add: True s del: fix_order_loop.simps)
    with std' show ?thesis by simp
  qed
qed

lemma distribute_total:
  "ws \<noteq> [] \<Longrightarrow> \<exists>ws'. distribute xs j ws = Inr ws'"
proof (induction xs arbitrary: j ws)
  case Nil
  then show ?case by simp
next
  case (Cons a xs)
  let ?ws = "ws[j mod length ws := ws ! (j mod length ws) @ [a]]"
  from Cons.prems have "?ws \<noteq> []" by simp
  from Cons.IH[OF this, of "j + 1"] Cons.prems show ?case by simp
qed

lemma sanitize_missing_total:
  assumes "0 < tw"
  shows "\<exists>s'. sanitize_missing apps tw e s = Inr s'"
proof -
  let ?ws = "if length (fst s e) = 0 then replicate tw [] else fst s e"
  have "?ws \<noteq> []" using assms by auto
  from distribute_total[OF this] obtain ws'
    where "distribute (filter (\<lambda>a. a \<notin> snd s) (all_env_apps apps e)) 0 ?ws = Inr ws'"
    by blast
  then show ?thesis by (simp add: sanitize_missing_def Let_def)
qed

lemma sanitize_waves_total:
  assumes "0 < tw"
  shows "\<exists>w'. sanitize_waves apps tw w = Inr w'"
proof -
  have "\<exists>s'. for_each (sanitize_missing apps tw) envs (fold (sanitize_clean tw) envs (w, {})) = Inr s' \<and> True"
    by (rule for_each_invariant[where P = "\<lambda>s. True"])
       (use sanitize_missing_total[OF assms] in auto)
  then show ?thesis by (auto simp: sanitize_waves_def)
qed

lemma enforce_constraints_result:
  assumes "0 < tw" and "distinct (map app_instance_id apps)" and "standard_structure apps tw w"
  shows "enforce_constraints apps deps tw w =
           Inr (\<lambda>e. slice_loop (sort_key (\<lambda>x. - BCP_of apps x) (all_env_apps apps e)) 0
                      (wave_sizes (length (all_env_apps apps e)) tw))"
proof -
  from repair_loop_standard[OF assms(2,3)] obtain w1
    where w1: "repair_loop apps deps tw True 0 w = Inr w1" and std1: "standard_structure apps tw w1"
    by blast
  from fix_order_loop_standard[OF std1] obtain w2
    where w2: "fix_nonprod_prod_order apps tw w1 = Inr w2"
    unfolding fix_nonprod_prod_order_def by blast
  from sanitize_waves_total[OF assms(1)] obtain w3
    where w3: "sanitize_waves apps tw w2 = Inr w3" by blast
  show ?thesis
    unfolding enforce_constraints_def w1 sum.case w2 w3
    by (rule equalize_waves_unique[OF assms(1,2)])
qed

section \<open>What the pipeline returns\<close>

lemma sorted_by_BCP_desc_Inr:
  "sorted_by_BCP_desc apps xs = Inr ys \<Longrightarrow> ys = sort_key (\<lambda>x. - BCP_of apps x) xs"
  by (auto simp: sorted_by_BCP_desc_def split: sum.splits if_splits)

lemma equalize_env_Inr:
  assumes "equalize_env apps tw e = Inr ws"
  shows "concat ws = sort_key (\<lambda>x. - BCP_of apps x) (all_env_apps apps e)"
    and "length ws = tw"
    and "all_env_apps apps e = [] \<Longrightarrow> ws = replicate tw []"
proof -
  let ?ids = "all_env_apps apps e"
  let ?s = "sort_key (\<lambda>x. - BCP_of apps x) ?ids"
  from assms obtain ys where ys: "sorted_by_BCP_desc apps ?ids = Inr ys"
    by (auto simp: equalize_env_def split: sum.splits)
  from sorted_by_BCP_desc_Inr[OF ys] have ys_eq: "ys = ?s" .
  have cases: "(?ids = [] \<and> ws = replicate tw []) \<or>
               (?ids \<noteq> [] \<and> 0 < tw \<and> ws = slice_loop ?s 0 (wave_sizes (length ?s) tw))"
    using assms ys ys_eq by (auto simp: equalize_env_def Let_def split: if_splits)
  then show "concat ws = ?s"
  proof
    assume "?ids = [] \<and> ws = replicate tw []"
    then show ?thesis by simp
  next
    assume a: "?ids \<noteq> [] \<and> 0 < tw \<and> ws = slice_loop ?s 0 (wave_sizes (length ?s) tw)"
    then have "0 < tw" by simp
    from equalize_slices_props(1)[OF this, of ?s] a show ?thesis by simp
  qed
  from cases show "length ws = tw"
  proof
    assume "?ids = [] \<and> ws = replicate tw []"
    then show ?thesis by simp
  next
    assume a: "?ids \<noteq> [] \<and> 0 < tw \<and> ws = slice_loop ?s 0 (wave_sizes (length ?s) tw)"
    then have "0 < tw" by simp
    from equalize_slices_props(2)[OF this, of ?s] a show ?thesis by simp
  qed
  from cases show "?ids = [] \<Longrightarrow> ws = replicate tw []" by auto
qed

lemma equalize_waves_Inr:
  assumes "equalize_waves apps tw w = Inr w'"
  shows "equalize_env apps tw e = Inr (w' e)"
proof -
  from assms obtain a b where a: "equalize_env apps tw Nonprod = Inr a"
    and b: "equalize_env apps tw Prod = Inr b" and w': "w' = w(Nonprod := a, Prod := b)"
    by (auto simp: equalize_waves_def envs_def split: sum.splits)
  then show ?thesis by (cases e) simp_all
qed

lemma enforce_constraints_Inr:
  assumes "enforce_constraints apps deps tw w = Inr w'"
  shows "equalize_env apps tw e = Inr (w' e)"
proof -
  from assms obtain w3 where "equalize_waves apps tw w3 = Inr w'"
    by (auto simp: enforce_constraints_def split: sum.splits)
  then show ?thesis by (rule equalize_waves_Inr)
qed

lemma distinct_all_env_apps:
  "distinct (map app_instance_id apps) \<Longrightarrow> distinct (all_env_apps apps e)"
  by (simp add: all_env_apps_def)

lemma distinct_concat_same_index:
  assumes "distinct (concat ws)" and "i < length ws" and "j < length ws"
    and "a \<in> set (ws ! i)" and "a \<in> set (ws ! j)"
  shows "i = j"
  using assms
proof (induction ws arbitrary: i j)
  case Nil
  then show ?case by simp
next
  case (Cons wv ws)
  from Cons.prems(1) have d: "distinct (concat ws)" and disj: "set wv \<inter> set (concat ws) = {}"
    by simp_all
  have in_rest: "a \<in> set (concat ws)" if "k < length ws" "a \<in> set (ws ! k)" for k
    using that by (auto intro: nth_mem)
  show ?case
  proof (cases i)
    case 0
    show ?thesis
    proof (cases j)
      case 0
      with \<open>i = 0\<close> show ?thesis by simp
    next
      case (Suc j')
      with Cons.prems(3,5) have "a \<in> set (concat ws)" by (intro in_rest[of j']) simp_all
      moreover from 0 Cons.prems(4) have "a \<in> set wv" by simp
      ultimately show ?thesis using disj by blast
    qed
  next
    case (Suc i')
    show ?thesis
    proof (cases j)
      case 0
      from Suc Cons.prems(2,4) have "a \<in> set (concat ws)" by (intro in_rest[of i']) simp_all
      moreover from 0 Cons.prems(5) have "a \<in> set wv" by simp
      ultimately show ?thesis using disj by blast
    next
      case Suc2: (Suc j')
      from Cons.IH[OF d, of i' j'] Suc Suc2 Cons.prems(2-5) show ?thesis by simp
    qed
  qed
qed

lemma distinct_concat_unique_wave:
  assumes "distinct (concat ws)" and "a \<in> set (concat ws)"
  shows "\<exists>!i. i < length ws \<and> a \<in> set (ws ! i)"
proof -
  from assms(2) obtain wv where "wv \<in> set ws" "a \<in> set wv" by auto
  then obtain i where i: "i < length ws" "a \<in> set (ws ! i)" by (auto simp: in_set_conv_nth)
  have "j = i" if "j < length ws" "a \<in> set (ws ! j)" for j
    using distinct_concat_same_index[OF assms(1) that(1) i(1) that(2) i(2)] .
  with i show ?thesis by blast
qed

lemma enforce_constraints_returned_waves:
  assumes "enforce_constraints apps deps tw w = Inr w'"
  shows "concat (w' e) = sort_key (\<lambda>x. - BCP_of apps x) (all_env_apps apps e)"
    and "length (w' e) = tw"
    and "all_env_apps apps e = [] \<Longrightarrow> w' e = replicate tw []"
  using equalize_env_Inr[OF enforce_constraints_Inr[OF assms, of e]] by blast+

lemma enforce_constraints_total:
  assumes "0 < tw" and "distinct (map app_instance_id apps)" and "standard_structure apps tw w"
  shows "\<exists>w'. enforce_constraints apps deps tw w = Inr w'"
  using enforce_constraints_result[OF assms] by blast

lemma demo_waves_standard:
  "standard_structure demo_apps 2 demo_waves" "standard_structure demo_apps 2 demo_waves_alt"
  by code_simp+

lemma crit_waves_standard: "standard_structure crit_apps 8 crit_waves"
  by code_simp

text \<open>
  C3. Whenever the pipeline returns, every environment's wave list has exactly
  \<open>target_waves\<close> waves, and an environment without applications gets \<open>target_waves\<close> empty
  waves. The pipeline does return for a positive \<open>target_waves\<close>, an application table
  with distinct ids and an initial assignment of standard structure.
\<close>

theorem enforce_constraints_fixed_cardinality:
  "(\<forall>w'. enforce_constraints apps deps target_waves w = Inr w' \<longrightarrow>
      (\<forall>e. length (w' e) = target_waves \<and>
           (all_env_apps apps e = [] \<longrightarrow> w' e = replicate target_waves []))) \<and>
   (0 < target_waves \<and> distinct (map app_instance_id apps) \<and>
    standard_structure apps target_waves w \<longrightarrow>
      (\<exists>w'. enforce_constraints apps deps target_waves w = Inr w'))"
  using enforce_constraints_returned_waves(2,3)[of apps deps target_waves w]
    enforce_constraints_total[of target_waves apps w deps]
  by blast

theorem enforce_constraints_fixed_cardinality_witness:
  "(0::nat) < 8 \<and> distinct (map app_instance_id crit_apps) \<and>
   standard_structure crit_apps 8 crit_waves \<and> all_env_apps crit_apps Prod = [] \<and>
   (\<exists>w'. enforce_constraints crit_apps [] 8 crit_waves = Inr w' \<and>
      length (w' Nonprod) = 8 \<and> w' Prod = [[], [], [], [], [], [], [], []])"
proof -
  have pos: "(0::nat) < 8" by simp
  have noprod: "all_env_apps crit_apps Prod = []"
    by (simp add: all_env_apps_def crit_apps_def endswith_def env_suffix_def)
  from enforce_constraints_fixed_cardinality[of crit_apps "[]" 8 crit_waves]
    pos crit_apps_distinct crit_waves_standard
  obtain w' where w': "enforce_constraints crit_apps [] 8 crit_waves = Inr w'"
    and l: "\<And>e. length (w' e) = 8"
    and e: "\<And>e. all_env_apps crit_apps e = [] \<Longrightarrow> w' e = replicate 8 []"
    by blast
  have p: "w' Prod = [[], [], [], [], [], [], [], []]"
    using e[OF noprod] by (simp add: numeral_eq_Suc)
  show ?thesis
    by (intro conjI exI[of _ w'] pos crit_apps_distinct crit_waves_standard noprod w' l p)
qed

text \<open>
  C2. With distinct ids in the application table: whenever the pipeline returns, the waves
  of an environment hold the table's ids with that environment's suffix and nothing else,
  each id in exactly one wave and only once there. The pipeline returns for a positive
  \<open>target_waves\<close> and an initial assignment of standard structure.
\<close>

theorem enforce_constraints_exactly_once:
  assumes "distinct (map app_instance_id apps)"
  shows "(\<forall>w'. enforce_constraints apps deps target_waves w = Inr w' \<longrightarrow>
            (\<forall>e. distinct (concat (w' e)) \<and>
                 set (concat (w' e)) =
                   {a \<in> app_instance_id ` set apps. endswith a (env_suffix e)} \<and>
                 (\<forall>a \<in> app_instance_id ` set apps. endswith a (env_suffix e) \<longrightarrow>
                     (\<exists>!i. i < length (w' e) \<and> a \<in> set (w' e ! i))) \<and>
                 (\<forall>wv \<in> set (w' e). \<forall>a \<in> set wv. endswith a (env_suffix e)))) \<and>
         (0 < target_waves \<and> standard_structure apps target_waves w \<longrightarrow>
            (\<exists>w'. enforce_constraints apps deps target_waves w = Inr w'))"
proof (intro conjI allI impI)
  fix w' e
  assume r: "enforce_constraints apps deps target_waves w = Inr w'"
  have c: "concat (w' e) = sort_key (\<lambda>x. - BCP_of apps x) (all_env_apps apps e)"
    by (rule enforce_constraints_returned_waves(1)[OF r])
  show d: "distinct (concat (w' e))"
    using distinct_all_env_apps[OF assms, of e] by (simp add: c)
  show s: "set (concat (w' e)) = {a \<in> app_instance_id ` set apps. endswith a (env_suffix e)}"
    by (auto simp: c all_env_apps_def)
  show "\<forall>a \<in> app_instance_id ` set apps. endswith a (env_suffix e) \<longrightarrow>
          (\<exists>!i. i < length (w' e) \<and> a \<in> set (w' e ! i))"
  proof (intro ballI impI)
    fix a assume "a \<in> app_instance_id ` set apps" "endswith a (env_suffix e)"
    with s have "a \<in> set (concat (w' e))" by blast
    then show "\<exists>!i. i < length (w' e) \<and> a \<in> set (w' e ! i)"
      by (rule distinct_concat_unique_wave[OF d])
  qed
  show "\<forall>wv \<in> set (w' e). \<forall>a \<in> set wv. endswith a (env_suffix e)"
  proof (intro ballI)
    fix wv a assume "wv \<in> set (w' e)" "a \<in> set wv"
    then have "a \<in> set (concat (w' e))" by auto
    with s show "endswith a (env_suffix e)" by blast
  qed
next
  assume "0 < target_waves \<and> standard_structure apps target_waves w"
  then show "\<exists>w'. enforce_constraints apps deps target_waves w = Inr w'"
    using enforce_constraints_total[OF _ assms] by blast
qed

theorem enforce_constraints_exactly_once_witness:
  "distinct (map app_instance_id demo_apps) \<and> (0::nat) < 2 \<and>
   standard_structure demo_apps 2 demo_waves \<and>
   ''B-nonprod'' \<in> app_instance_id ` set demo_apps \<and>
   endswith ''B-nonprod'' (env_suffix Nonprod) \<and>
   (\<exists>w'. enforce_constraints demo_apps [] 2 demo_waves = Inr w' \<and>
      distinct (concat (w' Nonprod)) \<and>
      (\<exists>!i. i < length (w' Nonprod) \<and> ''B-nonprod'' \<in> set (w' Nonprod ! i)) \<and>
      (\<forall>wv \<in> set (w' Prod). \<forall>a \<in> set wv. endswith a (env_suffix Prod)))"
proof -
  have pos: "(0::nat) < 2" by simp
  have b: "''B-nonprod'' \<in> app_instance_id ` set demo_apps"
    by (simp add: demo_apps_def)
  have sfx: "endswith ''B-nonprod'' (env_suffix Nonprod)"
    by (simp add: endswith_def env_suffix_def)
  note inst = enforce_constraints_exactly_once[OF demo_apps_distinct, of "[]" 2 demo_waves]
  from inst pos demo_waves_standard(1)
  obtain w' where w': "enforce_constraints demo_apps [] 2 demo_waves = Inr w'" by blast
  from inst w' have d: "distinct (concat (w' Nonprod))" by blast
  from inst w' b sfx
  have u: "\<exists>!i. i < length (w' Nonprod) \<and> ''B-nonprod'' \<in> set (w' Nonprod ! i)" by blast
  from inst w' have x: "\<forall>wv \<in> set (w' Prod). \<forall>a \<in> set wv. endswith a (env_suffix Prod)" by blast
  show ?thesis
    by (intro conjI exI[of _ w'] demo_apps_distinct pos demo_waves_standard(1) b sfx w' d u x)
qed

text \<open>
  C8. For two initial assignments of standard structure over the same application table
  (with distinct ids) the pipeline gives the same result; for a positive \<open>target_waves\<close>
  it returns, whatever the dependency table, the assignment that the Equalizer builds
  from the application table alone.
\<close>

theorem enforce_constraints_ignores_initial_waves:
  assumes "distinct (map app_instance_id apps)"
    and "standard_structure apps target_waves w1" and "standard_structure apps target_waves w2"
  shows "enforce_constraints apps deps target_waves w1 =
           enforce_constraints apps deps target_waves w2 \<and>
         (0 < target_waves \<longrightarrow>
            (\<exists>w'. enforce_constraints apps deps target_waves w1 = Inr w' \<and>
                  enforce_constraints apps deps' target_waves w2 = Inr w' \<and>
                  (\<forall>w0. equalize_waves apps target_waves w0 = Inr w')))"
proof (cases "0 < target_waves")
  case True
  let ?w' = "\<lambda>e. slice_loop (sort_key (\<lambda>x. - BCP_of apps x) (all_env_apps apps e)) 0
                      (wave_sizes (length (all_env_apps apps e)) target_waves)"
  have a: "enforce_constraints apps deps target_waves w1 = Inr ?w'"
    by (rule enforce_constraints_result[OF True assms(1,2)])
  have b: "enforce_constraints apps deps target_waves w2 = Inr ?w'"
    by (rule enforce_constraints_result[OF True assms(1,3)])
  have b': "enforce_constraints apps deps' target_waves w2 = Inr ?w'"
    by (rule enforce_constraints_result[OF True assms(1,3)])
  have c: "\<forall>w0. equalize_waves apps target_waves w0 = Inr ?w'"
    using equalize_waves_unique[OF True assms(1)] by blast
  from a b b' c show ?thesis by simp
next
  case False
  then have z: "target_waves = 0" by simp
  have "w1 e = w2 e" for e
    using standard_structure_length[OF assms(2), of e] standard_structure_length[OF assms(3), of e] z
    by simp
  then have "w1 = w2" by blast
  with False show ?thesis by simp
qed

theorem enforce_constraints_ignores_initial_waves_witness:
  "distinct (map app_instance_id demo_apps) \<and>
   standard_structure demo_apps 2 demo_waves \<and> standard_structure demo_apps 2 demo_waves_alt \<and>
   demo_waves Nonprod \<noteq> demo_waves_alt Nonprod \<and> (0::nat) < 2 \<and>
   enforce_constraints demo_apps [] 2 demo_waves = enforce_constraints demo_apps [] 2 demo_waves_alt \<and>
   (\<exists>w'. enforce_constraints demo_apps [] 2 demo_waves = Inr w')"
proof -
  have pos: "(0::nat) < 2" by simp
  have ne: "demo_waves Nonprod \<noteq> demo_waves_alt Nonprod"
    by (simp add: demo_waves_def demo_waves_alt_def)
  note inst = enforce_constraints_ignores_initial_waves[OF demo_apps_distinct demo_waves_standard,
      of "[]" "[]"]
  from inst have eq: "enforce_constraints demo_apps [] 2 demo_waves =
      enforce_constraints demo_apps [] 2 demo_waves_alt" by blast
  from inst pos have ex: "\<exists>w'. enforce_constraints demo_apps [] 2 demo_waves = Inr w'" by blast
  show ?thesis
    by (intro conjI demo_apps_distinct demo_waves_standard ne pos eq ex)
qed

section \<open>Validating the returned assignment\<close>

lemma concat_result_total:
  assumes "\<And>x. x \<in> set xs \<Longrightarrow> \<exists>ys. f x = Inr ys"
  shows "\<exists>zs. concat_result f xs = Inr zs \<and>
              (\<forall>x \<in> set xs. \<forall>ys. f x = Inr ys \<longrightarrow> set ys \<subseteq> set zs)"
  using assms
proof (induction xs)
  case Nil
  then show ?case by (simp add: concat_result_def)
next
  case (Cons x xs)
  from Cons.prems[of x] obtain ys where ys: "f x = Inr ys" by auto
  have "\<exists>zs. concat_result f xs = Inr zs \<and>
              (\<forall>x \<in> set xs. \<forall>ys. f x = Inr ys \<longrightarrow> set ys \<subseteq> set zs)"
    by (rule Cons.IH) (use Cons.prems in auto)
  then obtain zs where zs: "concat_result f xs = Inr zs"
    and sub: "\<forall>x \<in> set xs. \<forall>ys. f x = Inr ys \<longrightarrow> set ys \<subseteq> set zs" by blast
  from zs obtain yss where yss: "map_result f xs = Inr yss" "zs = concat yss"
    by (auto simp: concat_result_def split: sum.splits)
  have r: "concat_result f (x # xs) = Inr (ys @ zs)"
    using ys yss by (simp add: concat_result_def)
  have "\<forall>x' \<in> set (x # xs). \<forall>ys'. f x' = Inr ys' \<longrightarrow> set ys' \<subseteq> set (ys @ zs)"
    using ys sub by auto
  with r show ?case by blast
qed

lemma check_dep_total:
  assumes "distinct (map app_instance_id apps)"
    and im: "\<And>a e' i'. m a = Some (e', i') \<Longrightarrow> a \<in> app_instance_id ` set apps"
  shows "\<exists>ys. check_dep apps m alg r = Inr ys"
proof (cases "m (source r)")
  case None
  then show ?thesis by (simp add: check_dep_def Let_def)
next
  case (Some sv)
  obtain s_env s_idx where sv: "sv = (s_env, s_idx)" by (cases sv)
  show ?thesis
  proof (cases "m (target r)")
    case None
    then show ?thesis using Some by (simp add: check_dep_def Let_def split: prod.splits)
  next
    case Some2: (Some tv)
    obtain t_env t_idx where tv: "tv = (t_env, t_idx)" by (cases tv)
    from im[of "source r" s_env s_idx] Some sv
    have "source r \<in> app_instance_id ` set apps" by simp
    from loc_BCP_score_unique[OF assms(1) this] obtain v
      where v: "loc_BCP_score apps (source r) = Inr (Scalar v)" by blast
    show ?thesis
      using Some sv Some2 tv v by (simp add: check_dep_def Let_def)
  qed
qed

lemma check_edge_app_unique:
  assumes "distinct (map app_instance_id apps)" and "a \<in> app_instance_id ` set apps"
  shows "check_edge_app apps alg e N (i, a) =
           Inr (if mission_critical apps a \<and> (i = 0 \<or> int i = int N - 1)
                then [Mission_critical_edge_wave alg e i a] else [])"
proof -
  from loc_BCP_score_unique[OF assms] obtain v
    where v: "loc_BCP_score apps a = Inr (Scalar v)" by blast
  then have "mission_critical apps a \<longleftrightarrow> 9 \<le> v"
    by (simp add: mission_critical_lookup[OF assms(1)])
  with v show ?thesis by (simp add: check_edge_app_def Let_def)
qed

lemma indexed_members_enumerate:
  "set (concat (map (\<lambda>(i, wv). map (\<lambda>a. (i, a)) wv) (enumerate k ws))) =
     {(i, a). k \<le> i \<and> i < k + length ws \<and> a \<in> set (ws ! (i - k))}"
proof (induction ws arbitrary: k)
  case Nil
  then show ?case by auto
next
  case (Cons wv ws)
  have "{(i, a). k \<le> i \<and> i < k + length (wv # ws) \<and> a \<in> set ((wv # ws) ! (i - k))} =
        {(i, a). i = k \<and> a \<in> set wv} \<union>
        {(i, a). Suc k \<le> i \<and> i < Suc k + length ws \<and> a \<in> set (ws ! (i - Suc k))}"
    (is "?L = ?A \<union> ?B")
  proof (intro set_eqI iffI)
    fix x assume "x \<in> ?L"
    then obtain i a where x: "x = (i, a)" and i: "k \<le> i" "i < k + length (wv # ws)"
      and a: "a \<in> set ((wv # ws) ! (i - k))" by auto
    show "x \<in> ?A \<union> ?B"
    proof (cases "i = k")
      case True
      with a x show ?thesis by simp
    next
      case False
      with i have "i - k = Suc (i - Suc k)" by simp
      with a have "a \<in> set (ws ! (i - Suc k))" by simp
      with False i x show ?thesis by simp
    qed
  next
    fix x assume "x \<in> ?A \<union> ?B"
    then show "x \<in> ?L"
    proof
      assume "x \<in> ?A"
      then show ?thesis by auto
    next
      assume "x \<in> ?B"
      then obtain i a where x: "x = (i, a)" and i: "Suc k \<le> i" "i < Suc k + length ws"
        and a: "a \<in> set (ws ! (i - Suc k))" by auto
      from i have "i - k = Suc (i - Suc k)" by simp
      with a have "a \<in> set ((wv # ws) ! (i - k))" by simp
      with i x show ?thesis by simp
    qed
  qed
  moreover have "set (concat (map (\<lambda>(i, wv). map (\<lambda>a. (i, a)) wv) (enumerate k (wv # ws)))) =
        ?A \<union> set (concat (map (\<lambda>(i, wv). map (\<lambda>a. (i, a)) wv) (enumerate (Suc k) ws)))"
    by auto
  ultimately show ?case using Cons.IH[of "Suc k"] by simp
qed

lemma set_indexed_members:
  "set (indexed_members ws) = {(i, a). i < length ws \<and> a \<in> set (ws ! i)}"
  using indexed_members_enumerate[of 0 ws] by (simp add: indexed_members_def)

lemma wave_sizes_first:
  assumes "0 < tw" and "0 < n"
  shows "\<exists>s0 rest. wave_sizes n tw = s0 # rest \<and> 0 < s0"
proof -
  let ?f = "\<lambda>i. if i < n mod tw then n div tw + 1 else n div tw"
  have "[0..<tw] = 0 # [1..<tw]" using assms(1) by (simp add: upt_conv_Cons)
  then have ws: "wave_sizes n tw = ?f 0 # map ?f [1..<tw]"
    by (simp add: wave_sizes_def Let_def)
  have "0 < ?f 0"
  proof (cases "0 < n mod tw")
    case True
    then show ?thesis by simp
  next
    case False
    then have "n mod tw = 0" by simp
    then have "n = tw * (n div tw)" using mult_div_mod_eq[of tw n] by simp
    with assms(2) have "0 < n div tw" by (cases "n div tw = 0") simp_all
    with False show ?thesis by simp
  qed
  with ws show ?thesis by blast
qed

lemma first_wave_has_head:
  assumes "0 < tw" and "xs \<noteq> []"
  shows "0 < length (slice_loop xs 0 (wave_sizes (length xs) tw)) \<and>
         hd xs \<in> set (slice_loop xs 0 (wave_sizes (length xs) tw) ! 0)"
proof -
  from assms(2) have "0 < length xs" by simp
  from wave_sizes_first[OF assms(1) this] obtain s0 rest
    where ws: "wave_sizes (length xs) tw = s0 # rest" and s0: "0 < s0" by blast
  from assms(2) obtain x xs' where xs: "xs = x # xs'" by (cases xs) auto
  from s0 obtain k where k: "s0 = Suc k" by (cases s0) auto
  have "slice_loop xs 0 (wave_sizes (length xs) tw) = take s0 xs # slice_loop xs (0 + s0) rest"
    by (simp only: ws slice_loop.simps drop_0)
  then show ?thesis by (simp add: xs k)
qed

lemma sort_key_head_least:
  assumes "a \<in> set xs"
  shows "f (hd (sort_key f xs)) \<le> f a"
proof -
  let ?s = "sort_key f xs"
  from assms have a: "a \<in> set ?s" by simp
  then obtain y ys where s: "?s = y # ys" by (cases ?s) auto
  have "sorted (map f ?s)" by (rule sorted_sort_key)
  with s have "\<forall>z \<in> set ys. f y \<le> f z" by simp
  with a s show ?thesis by auto
qed

lemma mission_critical_BCP_of:
  assumes "distinct (map app_instance_id apps)" and "x \<in> app_instance_id ` set apps"
  shows "mission_critical apps x \<longleftrightarrow> 9 \<le> BCP_of apps x"
proof -
  from loc_BCP_score_unique[OF assms] obtain v
    where v: "loc_BCP_score apps x = Inr (Scalar v)" by blast
  then show ?thesis
    by (simp add: mission_critical_lookup[OF assms(1)] BCP_of_def)
qed

lemma equalized_standard:
  assumes "0 < tw"
  shows "standard_structure apps tw
           (\<lambda>e. slice_loop (sort_key (\<lambda>x. - BCP_of apps x) (all_env_apps apps e)) 0
                   (wave_sizes (length (all_env_apps apps e)) tw))"
proof (rule standard_structureI)
  fix e
  let ?s = "sort_key (\<lambda>x. - BCP_of apps x) (all_env_apps apps e)"
  have len: "length ?s = length (all_env_apps apps e)" by simp
  show "length (slice_loop ?s 0 (wave_sizes (length (all_env_apps apps e)) tw)) = tw"
    using equalize_slices_props(2)[OF assms, of ?s] by (simp only: len)
  fix wv a
  assume wv: "wv \<in> set (slice_loop ?s 0 (wave_sizes (length (all_env_apps apps e)) tw))"
    and a: "a \<in> set wv"
  have "concat (slice_loop ?s 0 (wave_sizes (length (all_env_apps apps e)) tw)) = ?s"
    using equalize_slices_props(1)[OF assms, of ?s] by (simp only: len)
  moreover from wv a have "a \<in> set (concat (slice_loop ?s 0 (wave_sizes (length (all_env_apps apps e)) tw)))"
    by auto
  ultimately have "a \<in> set ?s" by simp
  then show "a \<in> app_instance_id ` set apps"
    using all_env_apps_subset[of apps e] by auto
qed

lemma check_deps_total:
  assumes "distinct (map app_instance_id apps)" and "standard_structure apps tw w"
  shows "\<exists>ys. check_deps apps deps (wave_index_map w) alg = Inr ys"
proof -
  have "\<exists>zs. concat_result (check_dep apps (wave_index_map w) alg) (app_deps deps) = Inr zs \<and>
          (\<forall>x \<in> set (app_deps deps). \<forall>ys. check_dep apps (wave_index_map w) alg x = Inr ys \<longrightarrow>
              set ys \<subseteq> set zs)"
  proof (rule concat_result_total)
    fix r
    show "\<exists>ys. check_dep apps (wave_index_map w) alg r = Inr ys"
      by (rule check_dep_total[OF assms(1)]) (use wave_index_map_standard[OF assms(2)] in blast)
  qed
  then show ?thesis by (auto simp: check_deps_def)
qed

lemma check_edge_waves_total:
  assumes "distinct (map app_instance_id apps)" and "standard_structure apps tw w"
  shows "\<exists>ys. check_edge_waves apps w alg = Inr ys \<and>
           (\<forall>e i a. i < length (w e) \<and> a \<in> set (w e ! i) \<and> mission_critical apps a \<and>
                    (i = 0 \<or> int i = int (length (w e)) - 1) \<longrightarrow>
                    Mission_critical_edge_wave alg e i a \<in> set ys)"
proof -
  let ?inner = "\<lambda>e. concat_result (check_edge_app apps alg e (length (w e))) (indexed_members (w e))"
  have member: "a \<in> app_instance_id ` set apps" if "(i, a) \<in> set (indexed_members (w e))" for e i a
  proof -
    from that have i: "i < length (w e)" and a: "a \<in> set (w e ! i)"
      by (simp_all add: set_indexed_members)
    from i have "w e ! i \<in> set (w e)" by simp
    from standard_structure_member[OF assms(2) this a] show ?thesis .
  qed
  have inner: "\<exists>zs. ?inner e = Inr zs \<and>
      (\<forall>x \<in> set (indexed_members (w e)). \<forall>ys.
          check_edge_app apps alg e (length (w e)) x = Inr ys \<longrightarrow> set ys \<subseteq> set zs)" for e
  proof (rule concat_result_total)
    fix x assume x: "x \<in> set (indexed_members (w e))"
    obtain i a where ia: "x = (i, a)" by (cases x)
    from check_edge_app_unique[OF assms(1) member[OF x[unfolded ia]], of alg e "length (w e)" i]
    show "\<exists>ys. check_edge_app apps alg e (length (w e)) x = Inr ys" by (simp add: ia)
  qed
  have "\<exists>zs. concat_result ?inner envs = Inr zs \<and>
          (\<forall>e \<in> set envs. \<forall>ys. ?inner e = Inr ys \<longrightarrow> set ys \<subseteq> set zs)"
    by (rule concat_result_total) (use inner in blast)
  then obtain zs where zs: "check_edge_waves apps w alg = Inr zs"
    and sub: "\<forall>e \<in> set envs. \<forall>ys. ?inner e = Inr ys \<longrightarrow> set ys \<subseteq> set zs"
    by (auto simp: check_edge_waves_def)
  have "Mission_critical_edge_wave alg e i a \<in> set zs"
    if h: "i < length (w e)" "a \<in> set (w e ! i)" "mission_critical apps a"
       "i = 0 \<or> int i = int (length (w e)) - 1" for e i a
  proof -
    from inner[of e] obtain ys where ys: "?inner e = Inr ys"
      and ysub: "\<forall>x \<in> set (indexed_members (w e)). \<forall>ys'.
          check_edge_app apps alg e (length (w e)) x = Inr ys' \<longrightarrow> set ys' \<subseteq> set ys" by blast
    have mem: "(i, a) \<in> set (indexed_members (w e))"
      using h(1,2) by (simp add: set_indexed_members)
    have "check_edge_app apps alg e (length (w e)) (i, a) = Inr [Mission_critical_edge_wave alg e i a]"
      using check_edge_app_unique[OF assms(1) member[OF mem], of alg e "length (w e)" i] h(3,4)
      by simp
    with ysub mem have "Mission_critical_edge_wave alg e i a \<in> set ys" by fastforce
    moreover have "e \<in> set envs" by (simp add: set_envs)
    ultimately show ?thesis using sub ys by blast
  qed
  with zs show ?thesis by blast
qed

text \<open>
  C9. For a positive \<open>target_waves\<close>, an application table with distinct ids and an initial
  assignment of standard structure: if an environment has an application with BCP score at
  least 9, the pipeline returns an assignment whose wave 0 of that environment holds such
  an application, and the Validator, run on that assignment, returns a report with a
  \<open>mission_critical_edge_wave\<close> issue for it.
\<close>

theorem final_report_flags_mission_critical:
  assumes "0 < target_waves" and "distinct (map app_instance_id apps)"
    and "standard_structure apps target_waves w"
    and "\<exists>a \<in> set (all_env_apps apps e). mission_critical apps a"
  shows "\<exists>w' issues stats.
           enforce_constraints apps deps target_waves w = Inr w' \<and>
           validate_waves apps deps w' alg = Inr (issues, stats) \<and>
           (\<exists>a. mission_critical apps a \<and> a \<in> set (w' e ! 0) \<and>
                Mission_critical_edge_wave alg e 0 a \<in> set issues)"
proof -
  define key where "key = (\<lambda>x. - BCP_of apps x)"
  define w' where "w' = (\<lambda>e. slice_loop (sort_key key (all_env_apps apps e)) 0
                      (wave_sizes (length (all_env_apps apps e)) target_waves))"
  have res: "enforce_constraints apps deps target_waves w = Inr w'"
    unfolding w'_def key_def by (rule enforce_constraints_result[OF assms(1-3)])
  have std: "standard_structure apps target_waves w'"
    unfolding w'_def key_def by (rule equalized_standard[OF assms(1)])
  from assms(4) obtain c where c: "c \<in> set (all_env_apps apps e)" "mission_critical apps c"
    by blast
  let ?s = "sort_key key (all_env_apps apps e)"
  have ne: "?s \<noteq> []" using c(1) by (metis empty_iff empty_set set_sort)
  have len: "length ?s = length (all_env_apps apps e)" by simp
  have w'e: "w' e = slice_loop ?s 0 (wave_sizes (length ?s) target_waves)"
    by (simp only: w'_def len)
  from first_wave_has_head[OF assms(1) ne]
  have l0: "0 < length (w' e)" and hd0: "hd ?s \<in> set (w' e ! 0)"
    by (simp_all only: w'e)
  have hd_in: "hd ?s \<in> set (all_env_apps apps e)"
    using ne by (metis hd_in_set set_sort)
  then have hd_id: "hd ?s \<in> app_instance_id ` set apps"
    using all_env_apps_subset[of apps e] by blast
  have c_id: "c \<in> app_instance_id ` set apps"
    using c(1) all_env_apps_subset[of apps e] by blast
  have "key (hd ?s) \<le> key c" by (rule sort_key_head_least[OF c(1)])
  then have "BCP_of apps c \<le> BCP_of apps (hd ?s)" by (simp add: key_def)
  moreover have "9 \<le> BCP_of apps c"
    using c(2) by (simp add: mission_critical_BCP_of[OF assms(2) c_id])
  ultimately have crit: "mission_critical apps (hd ?s)"
    by (simp add: mission_critical_BCP_of[OF assms(2) hd_id])
  from check_deps_total[OF assms(2) std, of deps alg] obtain di
    where di: "check_deps apps deps (wave_index_map w') alg = Inr di" by blast
  from check_edge_waves_total[OF assms(2) std, of alg] obtain ei
    where ei: "check_edge_waves apps w' alg = Inr ei"
      and flagged: "\<forall>e i a. i < length (w' e) \<and> a \<in> set (w' e ! i) \<and> mission_critical apps a \<and>
                    (i = 0 \<or> int i = int (length (w' e)) - 1) \<longrightarrow>
                    Mission_critical_edge_wave alg e i a \<in> set ei" by blast
  define issues where "issues = check_wave_counts w' alg @ check_wave_sizes w' alg @
      check_exclusivity w' alg @ check_sequencing apps (wave_index_map w') alg @ di @ ei"
  have val: "validate_waves apps deps w' alg = Inr (issues, wave_stats w' alg)"
    by (simp add: validate_waves_def Let_def di ei issues_def)
  have "Mission_critical_edge_wave alg e 0 (hd ?s) \<in> set ei"
    using flagged l0 hd0 crit by blast
  then have iss: "Mission_critical_edge_wave alg e 0 (hd ?s) \<in> set issues"
    by (simp add: issues_def)
  show ?thesis
    by (intro exI[of _ w'] exI[of _ issues] exI[of _ "wave_stats w' alg"] exI[of _ "hd ?s"]
          conjI res val crit hd0 iss)
qed

theorem final_report_flags_mission_critical_witness:
  "(0::nat) < 2 \<and> distinct (map app_instance_id demo_apps) \<and>
   standard_structure demo_apps 2 demo_waves \<and>
   (\<exists>a \<in> set (all_env_apps demo_apps Nonprod). mission_critical demo_apps a) \<and>
   (\<exists>w' issues stats.
      enforce_constraints demo_apps [] 2 demo_waves = Inr w' \<and>
      validate_waves demo_apps [] w' ''louvain'' = Inr (issues, stats) \<and>
      (\<exists>a. Mission_critical_edge_wave ''louvain'' Nonprod 0 a \<in> set issues))"
proof -
  have pos: "(0::nat) < 2" by simp
  have b: "mission_critical demo_apps ''B-nonprod''"
    by (simp add: mission_critical_def demo_apps_def)
  have "''B-nonprod'' \<in> set (all_env_apps demo_apps Nonprod)"
    by (simp add: demo_all_env_apps)
  with b have crit: "\<exists>a \<in> set (all_env_apps demo_apps Nonprod). mission_critical demo_apps a"
    by blast
  from final_report_flags_mission_critical[OF pos demo_apps_distinct demo_waves_standard(1) crit,
      of "[]" "''louvain''"]
  have concl: "\<exists>w' issues stats.
      enforce_constraints demo_apps [] 2 demo_waves = Inr w' \<and>
      validate_waves demo_apps [] w' ''louvain'' = Inr (issues, stats) \<and>
      (\<exists>a. Mission_critical_edge_wave ''louvain'' Nonprod 0 a \<in> set issues)"
    by blast
  show ?thesis
    by (intro conjI pos demo_apps_distinct demo_waves_standard(1) crit concl)
qed

end
